theory Spec2Isabelle
  imports Main "HOL-Library.Sublist"
begin

section \<open>Strings of the quiz\<close>

text \<open>
  A JavaScript string is a sequence of UTF-16 code units. The strings an answer passes
  through (what the player types or clicks, the options, the correct answers) are lists
  of code units, each an integer from 0 to 65535; \<open>js\<close> reads a literal of the source as
  such a list. The other strings of the component only ever hold literals of the source
  and stay HOL strings.
\<close>

type_synonym jsstring = "int list"

definition js :: "string \<Rightarrow> jsstring" where
  "js s = map of_char s"

text \<open>
  \<^verbatim>\<open>String.prototype.trim\<close> removes the code units of ECMAScript's WhiteSpace and
  LineTerminator at both ends: TAB, LF, VT, FF, CR, SPACE, NBSP, U+1680, U+2000 to
  U+200A, U+2028, U+2029, U+202F, U+205F, U+3000 and U+FEFF.
\<close>

definition isWhiteSpace :: "int \<Rightarrow> bool" where
  "isWhiteSpace u \<longleftrightarrow>
     u \<in> {0x9, 0xA, 0xB, 0xC, 0xD, 0x20, 0xA0, 0x1680, 0x2028, 0x2029, 0x202F, 0x205F,
           0x3000, 0xFEFF}
     \<or> (0x2000 \<le> u \<and> u \<le> 0x200A)"

definition trim :: "jsstring \<Rightarrow> jsstring" where
  "trim s = rev (dropWhile isWhiteSpace (rev (dropWhile isWhiteSpace s)))"

text \<open>
  \<^verbatim>\<open>String.prototype.toLowerCase\<close> follows the case tables of Unicode, which are
  part of the runtime and not of the repository: the function is a parameter of the
  model (the field \<open>lowerCase\<close> of the surroundings below). What the properties
  below use of it is \<open>ecmaToLowerCase\<close>: on a string of ASCII code units and Kelvin
  signs (U+212A) it maps A to Z to a to z, the Kelvin sign to k, and leaves the rest; and
  only such a string has a result made of ASCII code units alone.
\<close>

definition basicLowerUnit :: "int \<Rightarrow> int" where
  "basicLowerUnit u =
     (if 0x41 \<le> u \<and> u \<le> 0x5A then u + 0x20 else if u = 0x212A then 0x6B else u)"

definition ecmaToLowerCase :: "(jsstring \<Rightarrow> jsstring) \<Rightarrow> bool" where
  "ecmaToLowerCase lc \<longleftrightarrow>
     (\<forall>s. (\<forall>u \<in> set s. u < 0x80 \<or> u = 0x212A) \<longrightarrow> lc s = map basicLowerUnit s) \<and>
     (\<forall>s. (\<forall>u \<in> set (lc s). u < 0x80) \<longrightarrow> (\<forall>u \<in> set s. u < 0x80 \<or> u = 0x212A))"

text \<open>
  Two code units that differ at most in case: the same unit, a letter A to Z and its
  small letter, or the Kelvin sign and K or k.
\<close>

definition sameIgnoringCase :: "int \<Rightarrow> int \<Rightarrow> bool" where
  "sameIgnoringCase u v \<longleftrightarrow>
     u = v \<or> (0x41 \<le> u \<and> u \<le> 0x5A \<and> v = u + 0x20) \<or> (0x41 \<le> v \<and> v \<le> 0x5A \<and> u = v + 0x20)
     \<or> (u = 0x212A \<and> (v = 0x4B \<or> v = 0x6B)) \<or> (v = 0x212A \<and> (u = 0x4B \<or> u = 0x6B))"

section \<open>Quiz data\<close>

text \<open>
  An entry of \<^verbatim>\<open>quizData\<close>: the question, the options of a multiple-choice
  question (absent for a free-text question) and the correct answer.
\<close>

record quiz_item =
  question :: string
  options :: "jsstring list option"
  correctAnswer :: jsstring

definition quizData :: "quiz_item list" where
  "quizData =
    [ \<lparr> question = ''Which planet is closest to the Sun?'',
        options = Some [js ''Venus'', js ''Mercury'', js ''Earth'', js ''Mars''],
        correctAnswer = js ''Mercury'' \<rparr>,
      \<lparr> question = ''Which data structure organizes items in a First-In, First-Out (FIFO) manner?'',
        options = Some [js ''Stack'', js ''Queue'', js ''Tree'', js ''Graph''],
        correctAnswer = js ''Queue'' \<rparr>,
      \<lparr> question = ''Which of the following is primarily used for structuring web pages?'',
        options = Some [js ''Python'', js ''Java'', js ''HTML'', js ''C++''],
        correctAnswer = js ''HTML'' \<rparr>,
      \<lparr> question = ''Which chemical symbol stands for Gold?'',
        options = Some [js ''Au'', js ''Gd'', js ''Ag'', js ''Pt''],
        correctAnswer = js ''Au'' \<rparr>,
      \<lparr> question = ''Which of these processes is not typically involved in refining petroleum?'',
        options = Some [js ''Fractional distillation'', js ''Cracking'', js ''Polymerization'', js ''Filtration''],
        correctAnswer = js ''Filtration'' \<rparr>,
      \<lparr> question = ''What is the value of 12 + 28?'',
        options = None, correctAnswer = js ''40'' \<rparr>,
      \<lparr> question = ''How many states are there in the United States?'',
        options = None, correctAnswer = js ''50'' \<rparr>,
      \<lparr> question = ''In which year was the Declaration of Independence signed?'',
        options = None, correctAnswer = js ''1776'' \<rparr>,
      \<lparr> question = ''What is the value of pi rounded to the nearest integer?'',
        options = None, correctAnswer = js ''3'' \<rparr>,
      \<lparr> question = ''If a car travels at 60 mph for 2 hours, how many miles does it travel?'',
        options = None, correctAnswer = js ''120'' \<rparr> ]"

text \<open>
  \<^verbatim>\<open>quizData[i]\<close>: reading past the end of a JavaScript array gives
  \<^verbatim>\<open>undefined\<close>, here \<open>None\<close>.
\<close>

definition quizDataAt :: "nat \<Rightarrow> quiz_item option" where
  "quizDataAt i = (if i < length quizData then Some (quizData ! i) else None)"

section \<open>Component state\<close>

text \<open>
  An attempt record. The source's field \<^verbatim>\<open>question\<close> is called
  \<open>questionText\<close> here, since \<open>question\<close> is the field of a quiz entry.
\<close>

record attempt =
  questionText :: string
  selectedAnswer :: jsstring
  isCorrect :: bool
  attemptNumber :: nat
  questionIndex :: nat

text \<open>The nine \<^verbatim>\<open>useState\<close> cells of \<^verbatim>\<open>QuizPlatform\<close>.\<close>

record session =
  currentQuestion :: nat
  feedback :: string
  answeredCorrectly :: bool
  score :: nat
  attempts :: "attempt list"
  currentAttempt :: nat
  timer :: int
  quizFinished :: bool
  textAnswer :: jsstring

definition initialSession :: session where
  "initialSession =
     \<lparr> currentQuestion = 0, feedback = [], answeredCorrectly = False, score = 0,
       attempts = [], currentAttempt = 0, timer = 30, quizFinished = False,
       textAnswer = [] \<rparr>"

text \<open>
  A handler either returns or throws. Reading a property of \<^verbatim>\<open>undefined\<close>
  throws a \<^verbatim>\<open>TypeError\<close>; the state updates queued before the throw still take
  effect, so both outcomes carry a session.
\<close>

datatype js_error = TypeError

datatype outcome = Returned session | Threw js_error session

fun sessionOf :: "outcome \<Rightarrow> session" where
  "sessionOf (Returned s) = s"
| "sessionOf (Threw e s) = s"

section \<open>Handlers\<close>

text \<open>
  The first argument is the runtime's \<^verbatim>\<open>toLowerCase\<close>; the source's
  \<^verbatim>\<open>toString()\<close> on a string is the identity.
\<close>

definition handleAnswerSelection ::
  "(jsstring \<Rightarrow> jsstring) \<Rightarrow> jsstring \<Rightarrow> session \<Rightarrow> outcome" where
  "handleAnswerSelection toLowerCase answer s =
     (if answeredCorrectly s then Returned s
      else
        let s1 = s\<lparr>currentAttempt := currentAttempt s + 1\<rparr>
        in case quizDataAt (currentQuestion s) of
             None \<Rightarrow> Threw TypeError s1
           | Some q \<Rightarrow>
               let correct = toLowerCase (trim (correctAnswer q));
                   givenAnswer = toLowerCase (trim answer);
                   isCorrect = (givenAnswer = correct);
                   attemptRecord =
                     \<lparr> questionText = question q, selectedAnswer = answer,
                       isCorrect = isCorrect, attemptNumber = currentAttempt s + 1,
                       questionIndex = currentQuestion s \<rparr>;
                   s2 = s1\<lparr>attempts := attempts s1 @ [attemptRecord]\<rparr>
               in if isCorrect
                  then Returned (s2\<lparr>feedback := ''Correct!'', answeredCorrectly := True,
                                    score := score s2 + 1\<rparr>)
                  else Returned (s2\<lparr>feedback := ''Incorrect, try again!''\<rparr>))"

text \<open>The verdict on an answer: the flag of the record the handler logs.\<close>

definition judged :: "(jsstring \<Rightarrow> jsstring) \<Rightarrow> jsstring \<Rightarrow> session \<Rightarrow> bool" where
  "judged lc a s = isCorrect (last (attempts (sessionOf (handleAnswerSelection lc a s))))"

definition handleNextQuestion :: "session \<Rightarrow> session" where
  "handleNextQuestion s =
     (let s1 = s\<lparr>currentAttempt := 0, feedback := [], answeredCorrectly := False,
                 timer := 30, textAnswer := []\<rparr>
      in if currentQuestion s + 1 < length quizData
         then s1\<lparr>currentQuestion := currentQuestion s1 + 1\<rparr>
         else s1\<lparr>quizFinished := True\<rparr>)"

definition restartQuiz :: "session \<Rightarrow> session" where
  "restartQuiz s =
     s\<lparr>currentQuestion := 0, score := 0, attempts := [], timer := 30,
       quizFinished := False, feedback := [], answeredCorrectly := False,
       currentAttempt := 0, textAnswer := []\<rparr>"

section \<open>History store\<close>

text \<open>
  The record handed to \<^verbatim>\<open>saveQuizHistory\<close>. Its fields \<^verbatim>\<open>score\<close> and
  \<^verbatim>\<open>attempts\<close> are called \<open>finalScore\<close> and \<open>loggedAttempts\<close> here.
\<close>

record history_entry =
  timestamp :: string
  finalScore :: nat
  totalQuestions :: nat
  loggedAttempts :: "attempt list"

text \<open>
  What lies outside the component: the object store \<^verbatim>\<open>quizHistory\<close> of the
  database, the lines written with \<^verbatim>\<open>console.error\<close> and the titles of the
  alerts shown.
\<close>

record world =
  quizHistory :: "history_entry list"
  console :: "string list"
  alerts :: "string list"

definition emptyWorld :: world where
  "emptyWorld = \<lparr> quizHistory = [], console = [], alerts = [] \<rparr>"

text \<open>
  How the database answers one call of \<^verbatim>\<open>saveQuizHistory\<close>: the promise of
  \<^verbatim>\<open>openDB\<close> is rejected; the open request fires neither \<^verbatim>\<open>onsuccess\<close>
  nor \<^verbatim>\<open>onerror\<close> (it stays blocked), so the promise never settles;
  \<^verbatim>\<open>db.transaction\<close> or \<^verbatim>\<open>store.add\<close> throws; the transaction fires
  \<^verbatim>\<open>onerror\<close>; the transaction is aborted when it commits (the quota is
  exceeded, the disk fails), which fires \<^verbatim>\<open>abort\<close> only; or it fires
  \<^verbatim>\<open>oncomplete\<close>. The source sets no \<^verbatim>\<open>onabort\<close> and no
  \<^verbatim>\<open>onblocked\<close> handler: an aborted commit and an open request that never settles
  store nothing, log nothing and show nothing.
\<close>

datatype idb_outcome =
  OpenRejected | OpenNeverSettles | TransactionThrew | TransactionError | TransactionAborted
  | TransactionComplete

definition saveQuizHistory :: "idb_outcome \<Rightarrow> history_entry \<Rightarrow> world \<Rightarrow> world" where
  "saveQuizHistory r history w =
     (case r of
        OpenRejected \<Rightarrow> w\<lparr>console := console w @ [''Error in saveQuizHistory:'']\<rparr>
      | OpenNeverSettles \<Rightarrow> w
      | TransactionThrew \<Rightarrow> w\<lparr>console := console w @ [''Error in saveQuizHistory:'']\<rparr>
      | TransactionError \<Rightarrow> w\<lparr>console := console w @ [''Error saving quiz history: '']\<rparr>
      | TransactionAborted \<Rightarrow> w
      | TransactionComplete \<Rightarrow>
          w\<lparr>quizHistory := quizHistory w @ [history],
            alerts := alerts w @ [''Quiz history saved successfully in IndexDB!'']\<rparr>)"

text \<open>
  The surroundings of one event: the string that
  \<^verbatim>\<open>new Date().toISOString()\<close> returns, the answer of the database, and the
  runtime's \<^verbatim>\<open>String.prototype.toLowerCase\<close>.
\<close>

record env =
  now :: string
  idb :: idb_outcome
  lowerCase :: "jsstring \<Rightarrow> jsstring"

section \<open>Effects\<close>

text \<open>
  The timer effect, run after a render whose dependencies changed. With time left it
  only schedules the countdown, which changes no state. At zero it records
  \<^verbatim>\<open>No Answer\<close> when nothing was attempted and moves on.
\<close>

definition timerEffect :: "session \<Rightarrow> outcome" where
  "timerEffect s =
     (if \<not> quizFinished s \<and> \<not> answeredCorrectly s then
        (if timer s > 0 then Returned s
         else if currentAttempt s = 0 then
           (case quizDataAt (currentQuestion s) of
              None \<Rightarrow> Threw TypeError s
            | Some q \<Rightarrow>
                let attemptRecord =
                      \<lparr> questionText = question q, selectedAnswer = js ''No Answer'',
                        isCorrect = False, attemptNumber = 1,
                        questionIndex = currentQuestion s \<rparr>
                in Returned (handleNextQuestion (s\<lparr>attempts := attempts s @ [attemptRecord]\<rparr>)))
         else Returned (handleNextQuestion s))
      else Returned s)"

definition saveEffect :: "env \<Rightarrow> session \<Rightarrow> world \<Rightarrow> world" where
  "saveEffect e s w =
     (if quizFinished s then
        saveQuizHistory (idb e)
          \<lparr> timestamp = now e, finalScore = score s,
            totalQuestions = length quizData, loggedAttempts = attempts s \<rparr> w
      else w)"

text \<open>
  The dependency arrays of the two effects. React compares the entries with
  \<^verbatim>\<open>Object.is\<close>; for the array \<^verbatim>\<open>attempts\<close> that is identity, and the model
  compares the contents. The two differ only after \<^verbatim>\<open>setAttempts([])\<close> on an empty
  log, in \<^verbatim>\<open>restartQuiz\<close>, where \<^verbatim>\<open>quizFinished\<close> is false and the effect
  does nothing either way.
\<close>

definition timerDeps :: "session \<Rightarrow> int \<times> bool \<times> bool \<times> nat \<times> nat" where
  "timerDeps s = (timer s, quizFinished s, answeredCorrectly s, currentAttempt s, currentQuestion s)"

definition saveDeps :: "session \<Rightarrow> bool \<times> nat \<times> attempt list" where
  "saveDeps s = (quizFinished s, score s, attempts s)"

text \<open>
  The effects of one render: \<open>prev\<close> is the state of the render before, \<open>cur\<close>
  the state rendered now. The result is the state after the updates the effects queued,
  and the world after the save.
\<close>

definition runEffects :: "env \<Rightarrow> session \<Rightarrow> session \<Rightarrow> world \<Rightarrow> session \<times> world" where
  "runEffects e prev cur w =
     (sessionOf (if timerDeps cur \<noteq> timerDeps prev then timerEffect cur else Returned cur),
      if saveDeps cur \<noteq> saveDeps prev then saveEffect e cur w else w)"

text \<open>The session part of \<open>runEffects\<close>: the state after the timer effect.\<close>

definition afterTimer :: "session \<Rightarrow> session \<Rightarrow> session" where
  "afterTimer prev cur =
     (if timerDeps cur \<noteq> timerDeps prev then sessionOf (timerEffect cur) else cur)"

text \<open>React renders again as long as the effects change the state.\<close>

function settle :: "env \<Rightarrow> session \<Rightarrow> session \<Rightarrow> world \<Rightarrow> session \<times> world" where
  "settle e prev cur w =
     (if fst (runEffects e prev cur w) = cur then (cur, snd (runEffects e prev cur w))
      else settle e cur (fst (runEffects e prev cur w)) (snd (runEffects e prev cur w)))"
  by pat_completeness auto

termination settle
proof (relation "measure (\<lambda>(e, prev, cur, w). if sessionOf (timerEffect cur) = cur then 0 else 1)")
  show "wf (measure (\<lambda>(e, prev, cur, w). if sessionOf (timerEffect cur) = cur then 0 else (1::nat)))"
    by simp
next
  fix e :: env and prev cur :: session and w :: world
  assume a: "fst (runEffects e prev cur w) \<noteq> cur"
  then have fires: "sessionOf (timerEffect cur) \<noteq> cur"
    and nxt: "fst (runEffects e prev cur w) = sessionOf (timerEffect cur)"
    by (auto simp: runEffects_def split: if_splits)
  have "\<And>s. sessionOf (timerEffect s) \<noteq> s \<Longrightarrow> timer (sessionOf (timerEffect s)) = 30"
    by (auto simp: timerEffect_def handleNextQuestion_def Let_def
             split: if_splits option.splits)
  from this [OF fires] have reset: "timer (sessionOf (timerEffect cur)) = 30" .
  have "\<And>s. timer s = 30 \<Longrightarrow> sessionOf (timerEffect s) = s"
    by (simp add: timerEffect_def)
  from this [OF reset]
  have "sessionOf (timerEffect (sessionOf (timerEffect cur))) = sessionOf (timerEffect cur)" .
  with fires nxt
  show "((e, cur, fst (runEffects e prev cur w), snd (runEffects e prev cur w)), (e, prev, cur, w))
        \<in> measure (\<lambda>(e, prev, cur, w). if sessionOf (timerEffect cur) = cur then 0 else (1::nat))"
    by simp
qed

declare settle.simps [simp del]

section \<open>Events\<close>

text \<open>
  What can happen to the component: a click on the option with a given position, typing
  into the text field, a click on Submit Answer, on Next (shown as Skip while the
  question is unanswered), on Retry Quiz, and the countdown's timeout firing.
\<close>

datatype event =
  ClickOption nat | ChangeText jsstring | ClickSubmit | ClickNext | ClickRetry | Tick

text \<open>
  The controls the rendered page offers: the quiz view while the quiz is running, the
  summary with Retry Quiz once it is finished; the text field and its button are disabled
  as in the source. A countdown is pending when the timer effect scheduled one.
\<close>

definition enabled :: "session \<Rightarrow> event \<Rightarrow> bool" where
  "enabled s ev =
     (case ev of
        ClickOption i \<Rightarrow>
          \<not> quizFinished s \<and>
          (case quizDataAt (currentQuestion s) of
             None \<Rightarrow> False
           | Some q \<Rightarrow> (case options q of None \<Rightarrow> False | Some os \<Rightarrow> i < length os))
      | ChangeText t \<Rightarrow>
          \<not> quizFinished s \<and> \<not> answeredCorrectly s \<and>
          (case quizDataAt (currentQuestion s) of
             None \<Rightarrow> False | Some q \<Rightarrow> options q = None)
      | ClickSubmit \<Rightarrow>
          \<not> quizFinished s \<and> \<not> (answeredCorrectly s \<or> trim (textAnswer s) = []) \<and>
          (case quizDataAt (currentQuestion s) of
             None \<Rightarrow> False | Some q \<Rightarrow> options q = None)
      | ClickNext \<Rightarrow> \<not> quizFinished s
      | ClickRetry \<Rightarrow> quizFinished s
      | Tick \<Rightarrow> \<not> quizFinished s \<and> \<not> answeredCorrectly s \<and> timer s > 0)"

text \<open>The handler each event runs.\<close>

definition handler :: "env \<Rightarrow> event \<Rightarrow> session \<Rightarrow> outcome" where
  "handler e ev s =
     (case ev of
        ClickOption i \<Rightarrow>
          (case quizDataAt (currentQuestion s) of
             None \<Rightarrow> Threw TypeError s
           | Some q \<Rightarrow>
               (case options q of
                  None \<Rightarrow> Returned s
                | Some os \<Rightarrow> if i < length os then handleAnswerSelection (lowerCase e) (os ! i) s
                             else Returned s))
      | ChangeText t \<Rightarrow> Returned (s\<lparr>textAnswer := t\<rparr>)
      | ClickSubmit \<Rightarrow>
          (if trim (textAnswer s) \<noteq> [] then
             (case handleAnswerSelection (lowerCase e) (textAnswer s) s of
                Returned s' \<Rightarrow> Returned (s'\<lparr>textAnswer := []\<rparr>)
              | Threw x s' \<Rightarrow> Threw x s')
           else Returned s)
      | ClickNext \<Rightarrow> Returned (handleNextQuestion s)
      | ClickRetry \<Rightarrow> Returned (restartQuiz s)
      | Tick \<Rightarrow> Returned (s\<lparr>timer := timer s - 1\<rparr>))"

text \<open>
  One event: the handler, then the renders and effects that follow. An event the page
  does not offer does not happen.
\<close>

definition step :: "env \<Rightarrow> session \<times> world \<Rightarrow> event \<Rightarrow> session \<times> world" where
  "step e sw ev =
     (if enabled (fst sw) ev
      then settle e (fst sw) (sessionOf (handler e ev (fst sw))) (snd sw)
      else sw)"

fun run :: "(env \<times> event) list \<Rightarrow> session \<times> world \<Rightarrow> session \<times> world" where
  "run [] sw = sw"
| "run ((e, ev) # rest) sw = run rest (step e sw ev)"

section \<open>Invariant of the session\<close>

text \<open>
  What every state reached from the initial one satisfies: the current question exists,
  no attempt is logged for a later question, the log is ordered by question, the score
  counts the correct attempts, no question has two of them, and an unanswered running
  question has none.
\<close>

definition wellFormed :: "session \<Rightarrow> bool" where
  "wellFormed s \<longleftrightarrow>
     currentQuestion s < length quizData \<and>
     (\<forall>a \<in> set (attempts s). questionIndex a \<le> currentQuestion s) \<and>
     sorted (map questionIndex (attempts s)) \<and>
     score s = length (filter isCorrect (attempts s)) \<and>
     distinct (map questionIndex (filter isCorrect (attempts s))) \<and>
     (\<not> quizFinished s \<and> \<not> answeredCorrectly s \<longrightarrow>
        (\<forall>a \<in> set (attempts s). isCorrect a \<longrightarrow> questionIndex a < currentQuestion s))"

text \<open>
  Moving on from a question: to the next one while there is one, otherwise the quiz is
  finished and the index stays where it is.
\<close>

definition movedOn :: "session \<Rightarrow> session \<Rightarrow> bool" where
  "movedOn s s' \<longleftrightarrow>
     (if currentQuestion s + 1 < length quizData
      then currentQuestion s' = currentQuestion s + 1 \<and> \<not> quizFinished s'
      else currentQuestion s' = currentQuestion s \<and> quizFinished s')"

section \<open>Example sessions\<close>

text \<open>
  Concrete surroundings and sessions, used to run the model: a database that stores,
  one whose \<^verbatim>\<open>open\<close> request fails and one that aborts the transaction when it
  commits, each with a \<^verbatim>\<open>toLowerCase\<close> that changes only A to Z and the Kelvin
  sign (on the strings of the examples, what the runtime computes); the session after
  nine clicks on Skip,
  the session after twenty-nine seconds on the first question, and the events of a
  player who answers every question correctly at the first attempt.
\<close>

definition basicToLowerCase :: "jsstring \<Rightarrow> jsstring" where
  "basicToLowerCase s = map basicLowerUnit s"

definition storeWorks :: env where
  "storeWorks = \<lparr> now = ''2025-02-08T10:00:00.000Z'', idb = TransactionComplete,
                  lowerCase = basicToLowerCase \<rparr>"

definition storeFails :: env where
  "storeFails = \<lparr> now = ''2025-02-08T10:00:00.000Z'', idb = OpenRejected,
                  lowerCase = basicToLowerCase \<rparr>"

definition storeAborts :: env where
  "storeAborts = \<lparr> now = ''2025-02-08T10:00:00.000Z'', idb = TransactionAborted,
                   lowerCase = basicToLowerCase \<rparr>"

definition skippedToLast :: "session \<times> world" where
  "skippedToLast = run (map (Pair storeWorks) (replicate 9 ClickNext)) (initialSession, emptyWorld)"


definition allCorrect :: "event list" where
  "allCorrect =
     [ClickOption 1, ClickNext, ClickOption 1, ClickNext, ClickOption 2, ClickNext,
      ClickOption 0, ClickNext, ClickOption 3, ClickNext,
      ChangeText (js ''40''), ClickSubmit, ClickNext,
      ChangeText (js ''50''), ClickSubmit, ClickNext,
      ChangeText (js ''1776''), ClickSubmit, ClickNext,
      ChangeText (js ''3''), ClickSubmit, ClickNext,
      ChangeText (js ''120''), ClickSubmit, ClickNext]"

section \<open>Rendering settles after at most two rounds\<close>

lemma timerEffect_fires:
  "sessionOf (timerEffect s) \<noteq> s \<Longrightarrow> timer (sessionOf (timerEffect s)) = 30"
  by (auto simp: timerEffect_def handleNextQuestion_def Let_def
           split: if_splits option.splits)

lemma timerEffect_idle: "timer s = 30 \<Longrightarrow> sessionOf (timerEffect s) = s"
  by (simp add: timerEffect_def)

lemma timerEffect_idem:
  "sessionOf (timerEffect (sessionOf (timerEffect s))) = sessionOf (timerEffect s)"
  by (cases "sessionOf (timerEffect s) = s") (simp_all add: timerEffect_fires timerEffect_idle)

lemma fst_runEffects: "fst (runEffects e prev cur w) = afterTimer prev cur"
  by (simp add: runEffects_def afterTimer_def)

lemma afterTimer_stable:
  "afterTimer prev cur \<noteq> cur \<Longrightarrow> afterTimer cur (afterTimer prev cur) = afterTimer prev cur"
  by (auto simp: afterTimer_def timerEffect_idem)

lemma fst_settle: "fst (settle e prev cur w) = afterTimer prev cur"
  apply (subst settle.simps)
  apply (simp add: fst_runEffects)
  apply (rule impI)
  apply (subst settle.simps)
  apply (simp add: fst_runEffects afterTimer_stable)
  done

lemma snd_settle:
  "snd (settle e prev cur w) =
     (if afterTimer prev cur = cur then snd (runEffects e prev cur w)
      else snd (runEffects e cur (afterTimer prev cur) (snd (runEffects e prev cur w))))"
  apply (subst settle.simps)
  apply (simp add: fst_runEffects)
  apply (rule impI)
  apply (subst settle.simps)
  apply (simp add: fst_runEffects afterTimer_stable)
  done

lemma fst_step:
  "fst (step e (s, w) ev) = (if enabled s ev then afterTimer s (sessionOf (handler e ev s)) else s)"
  by (simp add: step_def fst_settle)

section \<open>The invariant\<close>

lemma wellFormed_initial: "wellFormed initialSession"
  by (simp add: wellFormed_def initialSession_def quizData_def)

lemma wellFormed_restart: "wellFormed (restartQuiz s)"
  by (simp add: wellFormed_def restartQuiz_def quizData_def)

lemma wellFormed_timer: "wellFormed (s\<lparr>timer := t\<rparr>) = wellFormed s"
  by (simp add: wellFormed_def)

lemma wellFormed_textAnswer: "wellFormed (s\<lparr>textAnswer := t\<rparr>) = wellFormed s"
  by (simp add: wellFormed_def)

lemma sorted_snoc_le:
  "sorted (map f xs) \<Longrightarrow> \<forall>x \<in> set xs. f x \<le> (n::nat) \<Longrightarrow> sorted (map f xs @ [n])"
  by (auto simp: sorted_append)

lemma wellFormed_next: "wellFormed s \<Longrightarrow> wellFormed (handleNextQuestion s)"
  by (auto simp: wellFormed_def handleNextQuestion_def Let_def)

lemma wellFormed_answer:
  assumes "wellFormed s" and "\<not> quizFinished s"
  shows "wellFormed (sessionOf (handleAnswerSelection lc a s))"
proof (cases "answeredCorrectly s")
  case True
  with assms show ?thesis by (simp add: handleAnswerSelection_def)
next
  case False
  from assms have "quizDataAt (currentQuestion s) = Some (quizData ! currentQuestion s)"
    by (simp add: wellFormed_def quizDataAt_def)
  with False assms show ?thesis
    by (auto simp: wellFormed_def handleAnswerSelection_def Let_def sorted_append)
qed

lemma wellFormed_timerEffect:
  assumes "wellFormed s"
  shows "wellFormed (sessionOf (timerEffect s))"
proof -
  from assms have q: "quizDataAt (currentQuestion s) = Some (quizData ! currentQuestion s)"
    by (simp add: wellFormed_def quizDataAt_def)
  have "wellFormed (s\<lparr>attempts := attempts s @ [\<lparr>questionText = x, selectedAnswer = y,
          isCorrect = False, attemptNumber = 1, questionIndex = currentQuestion s\<rparr>]\<rparr>)" for x y
    using assms by (auto simp: wellFormed_def sorted_append)
  with assms q show ?thesis
    by (simp add: timerEffect_def Let_def wellFormed_next)
qed

lemma wellFormed_afterTimer: "wellFormed cur \<Longrightarrow> wellFormed (afterTimer prev cur)"
  by (simp add: afterTimer_def wellFormed_timerEffect)

lemma wellFormed_handler:
  assumes "wellFormed s" and "enabled s ev"
  shows "wellFormed (sessionOf (handler e ev s))"
proof (cases ev)
  case (ClickOption i)
  with assms show ?thesis
    by (auto simp: handler_def enabled_def wellFormed_answer split: option.splits)
next
  case (ChangeText t)
  with assms show ?thesis by (simp add: handler_def wellFormed_textAnswer)
next
  case ClickSubmit
  from assms ClickSubmit have nf: "\<not> quizFinished s" by (simp add: enabled_def)
  have "wellFormed (sessionOf (handleAnswerSelection (lowerCase e) (textAnswer s) s))"
    using assms(1) nf by (rule wellFormed_answer)
  with ClickSubmit assms(1) show ?thesis
    by (auto simp: handler_def wellFormed_textAnswer split: outcome.splits)
next
  case ClickNext
  with assms show ?thesis by (simp add: handler_def wellFormed_next)
next
  case ClickRetry
  then show ?thesis by (simp add: handler_def wellFormed_restart)
next
  case Tick
  with assms show ?thesis by (simp add: handler_def wellFormed_timer)
qed

lemma wellFormed_step: "wellFormed (fst sw) \<Longrightarrow> wellFormed (fst (step e sw ev))"
  by (cases sw) (simp add: fst_step wellFormed_afterTimer wellFormed_handler)

lemma wellFormed_run: "wellFormed (fst sw) \<Longrightarrow> wellFormed (fst (run ins sw))"
proof (induction ins arbitrary: sw)
  case Nil
  then show ?case by simp
next
  case (Cons i ins)
  obtain e ev where i: "i = (e, ev)" by (cases i)
  from Cons.prems have "wellFormed (fst (step e sw ev))" by (rule wellFormed_step)
  then have "wellFormed (fst (run ins (step e sw ev)))" by (rule Cons.IH)
  with i show ?case by simp
qed

lemma wellFormed_reachable: "wellFormed (fst (run ins (initialSession, w)))"
  by (rule wellFormed_run) (simp add: wellFormed_initial)

section \<open>What the world sees\<close>

lemma snd_settle_running:
  assumes "\<not> quizFinished (afterTimer prev cur)"
  shows "snd (settle e prev cur w) = w"
proof (cases "afterTimer prev cur = cur")
  case True
  with assms show ?thesis
    by (simp add: snd_settle runEffects_def saveEffect_def)
next
  case False
  then have "\<not> quizFinished cur"
    by (auto simp: afterTimer_def timerEffect_def split: if_splits)
  with False assms show ?thesis
    by (simp add: snd_settle runEffects_def saveEffect_def)
qed

lemma snd_settle_finishing:
  assumes "\<not> quizFinished prev" and "quizFinished (afterTimer prev cur)"
  shows "snd (settle e prev cur w) = saveEffect e (afterTimer prev cur) w"
proof (cases "afterTimer prev cur = cur")
  case True
  with assms show ?thesis
    by (auto simp: snd_settle runEffects_def saveDeps_def)
next
  case False
  then have "\<not> quizFinished cur"
    by (auto simp: afterTimer_def timerEffect_def split: if_splits)
  with False assms show ?thesis
    by (auto simp: snd_settle runEffects_def saveDeps_def saveEffect_def)
qed

lemma afterTimer_same: "afterTimer s s = s"
  by (simp add: afterTimer_def)

lemma settle_same: "settle e s s w = (s, w)"
  by (rule prod_eqI) (simp_all add: fst_settle snd_settle afterTimer_same runEffects_def)

lemma step_finished:
  assumes "quizFinished s"
  shows "snd (step e (s, w) ev) = w"
proof (cases "enabled s ev")
  case False
  then show ?thesis by (simp add: step_def)
next
  case True
  with assms have ev: "ev = ClickRetry"
    by (cases ev) (simp_all add: enabled_def)
  have "afterTimer s (restartQuiz s) = restartQuiz s"
    by (simp add: afterTimer_def timerEffect_def restartQuiz_def)
  then have "\<not> quizFinished (afterTimer s (restartQuiz s))"
    by (simp add: restartQuiz_def)
  then have "snd (settle e s (restartQuiz s) w) = w"
    by (rule snd_settle_running)
  with True ev show ?thesis by (simp add: step_def handler_def)
qed

lemma step_running:
  assumes "\<not> quizFinished (fst (step e (s, w) ev))"
  shows "snd (step e (s, w) ev) = w"
proof (cases "enabled s ev")
  case False
  then show ?thesis by (simp add: step_def)
next
  case True
  with assms have "\<not> quizFinished (afterTimer s (sessionOf (handler e ev s)))"
    by (simp add: fst_step)
  then have "snd (settle e s (sessionOf (handler e ev s)) w) = w"
    by (rule snd_settle_running)
  with True show ?thesis by (simp add: step_def)
qed

lemma step_finishing:
  assumes "\<not> quizFinished s" and "quizFinished (fst (step e (s, w) ev))"
  shows "snd (step e (s, w) ev) = saveEffect e (fst (step e (s, w) ev)) w"
proof -
  from assms have en: "enabled s ev"
    by (auto simp: step_def split: if_splits)
  with assms(2) have "quizFinished (afterTimer s (sessionOf (handler e ev s)))"
    by (simp add: fst_step)
  with assms(1)
  have "snd (settle e s (sessionOf (handler e ev s)) w) =
          saveEffect e (afterTimer s (sessionOf (handler e ev s))) w"
    by (rule snd_settle_finishing)
  with en show ?thesis by (simp add: step_def fst_settle)
qed

lemma fst_step_env: "fst (step e (s, w) ev) = fst (step (e\<lparr>idb := r\<rparr>) (s, w') ev)"
  by (cases ev) (auto simp: fst_step handler_def split: option.splits)

lemma length_quizData: "length quizData = 10"
  by (simp add: quizData_def)

section \<open>Handlers, field by field\<close>

lemma next_fields:
  "attempts (handleNextQuestion s) = attempts s"
  "score (handleNextQuestion s) = score s"
  "timer (handleNextQuestion s) = 30"
  "currentAttempt (handleNextQuestion s) = 0"
  by (simp_all add: handleNextQuestion_def Let_def)

lemma next_movedOn: "\<not> quizFinished s \<Longrightarrow> movedOn s (handleNextQuestion s)"
  by (simp add: handleNextQuestion_def Let_def movedOn_def)

lemma afterTimer_next: "afterTimer s (handleNextQuestion s') = handleNextQuestion s'"
  by (simp add: afterTimer_def timerEffect_idle next_fields)

lemma step_ClickNext:
  "\<not> quizFinished s \<Longrightarrow> fst (step e (s, w) ClickNext) = handleNextQuestion s"
  by (simp add: fst_step enabled_def handler_def afterTimer_next)


section \<open>Counting correct answers\<close>

lemma distinct_map_filter_le1:
  "distinct (map f xs) \<Longrightarrow> length (filter (\<lambda>x. P x \<and> f x = q) xs) \<le> 1"
proof (induction xs)
  case Nil
  then show ?case by simp
next
  case (Cons x xs)
  show ?case
  proof (cases "f x = q")
    case True
    from Cons.prems have "f x \<notin> f ` set xs" by simp
    with True have "\<forall>y \<in> set xs. f y \<noteq> q" by blast
    then have "filter (\<lambda>x. P x \<and> f x = q) xs = []" by (auto simp: filter_empty_conv)
    then show ?thesis by simp
  next
    case False
    with Cons show ?thesis by simp
  qed
qed

lemma wellFormed_score_card:
  assumes "wellFormed s"
  shows "score s = card {q. \<exists>a \<in> set (attempts s). isCorrect a \<and> questionIndex a = q}"
proof -
  have "{q. \<exists>a \<in> set (attempts s). isCorrect a \<and> questionIndex a = q} =
        set (map questionIndex (filter isCorrect (attempts s)))"
    by auto
  moreover from assms have "distinct (map questionIndex (filter isCorrect (attempts s)))"
    and "score s = length (map questionIndex (filter isCorrect (attempts s)))"
    by (simp_all add: wellFormed_def)
  ultimately show ?thesis by (simp only: distinct_card)
qed

lemma wellFormed_one_correct:
  assumes "wellFormed s"
  shows "length (filter (\<lambda>a. isCorrect a \<and> questionIndex a = q) (attempts s)) \<le> 1"
proof -
  from assms have d: "distinct (map questionIndex (filter isCorrect (attempts s)))"
    by (simp add: wellFormed_def)
  have eq: "filter (\<lambda>a. isCorrect a \<and> questionIndex a = q) (attempts s) =
        filter (\<lambda>a. True \<and> questionIndex a = q) (filter isCorrect (attempts s))"
    by (simp add: conj_commute)
  show ?thesis
    unfolding eq by (rule distinct_map_filter_le1 [OF d])
qed

section \<open>Normalisation of answers\<close>

lemma trim_padded:
  assumes l: "\<forall>u \<in> set l. isWhiteSpace u" and r: "\<forall>u \<in> set r. isWhiteSpace u"
  shows "trim (l @ a @ r) = trim a"
proof -
  have dl: "dropWhile isWhiteSpace (l @ a @ r) = dropWhile isWhiteSpace (a @ r)"
    by (rule dropWhile_append2) (use l in simp)
  show ?thesis
  proof (cases "\<forall>u \<in> set a. isWhiteSpace u")
    case True
    with r have "dropWhile isWhiteSpace (a @ r) = []" and "dropWhile isWhiteSpace a = []"
      by (simp_all add: dropWhile_eq_Nil_conv ball_Un)
    with dl show ?thesis by (simp only: trim_def)
  next
    case False
    then have "dropWhile isWhiteSpace (a @ r) = dropWhile isWhiteSpace a @ r"
      by (auto simp: dropWhile_append1)
    moreover have "dropWhile isWhiteSpace (rev r @ rev (dropWhile isWhiteSpace a)) =
        dropWhile isWhiteSpace (rev (dropWhile isWhiteSpace a))"
      by (rule dropWhile_append2) (use r in simp)
    ultimately show ?thesis using dl by (simp add: trim_def)
  qed
qed

lemma trim_decomposition:
  "\<exists>l r. a = l @ trim a @ r \<and> (\<forall>u \<in> set l. isWhiteSpace u) \<and> (\<forall>u \<in> set r. isWhiteSpace u)"
proof (intro exI conjI)
  let ?b = "dropWhile isWhiteSpace a"
  have "trim a @ rev (takeWhile isWhiteSpace (rev ?b)) =
        rev (takeWhile isWhiteSpace (rev ?b) @ dropWhile isWhiteSpace (rev ?b))"
    by (simp only: trim_def rev_append)
  also have "\<dots> = rev (rev ?b)" by (simp only: takeWhile_dropWhile_id)
  finally have b: "?b = trim a @ rev (takeWhile isWhiteSpace (rev ?b))"
    by simp
  have "a = takeWhile isWhiteSpace a @ ?b" by simp
  with b show "a = takeWhile isWhiteSpace a @ trim a @ rev (takeWhile isWhiteSpace (rev ?b))"
    by simp
  show "\<forall>u \<in> set (takeWhile isWhiteSpace a). isWhiteSpace u"
    by (auto dest: set_takeWhileD)
  show "\<forall>u \<in> set (rev (takeWhile isWhiteSpace (rev ?b))). isWhiteSpace u"
    by (auto dest: set_takeWhileD)
qed

lemma trim_unpadded:
  assumes "xs \<noteq> []" and "\<not> isWhiteSpace (hd xs)" and "\<not> isWhiteSpace (last xs)"
  shows "trim xs = xs"
proof -
  from assms have "dropWhile isWhiteSpace xs = xs"
    by (simp add: dropWhile_eq_self_iff)
  moreover from assms have "dropWhile isWhiteSpace (rev xs) = rev xs"
    by (simp add: dropWhile_eq_self_iff hd_rev)
  ultimately show ?thesis by (simp add: trim_def)
qed

lemma basicLowerUnit_eq_iff:
  "basicLowerUnit u = basicLowerUnit v \<longleftrightarrow> sameIgnoringCase u v"
  by (auto simp: basicLowerUnit_def sameIgnoringCase_def)

lemma letter_not_whiteSpace:
  "(0x41 \<le> u \<and> u \<le> 0x7A) \<or> u = 0x212A \<Longrightarrow> \<not> isWhiteSpace u"
  by (auto simp: isWhiteSpace_def)

lemma sameIgnoringCase_letters:
  "sameIgnoringCase u v \<Longrightarrow>
   u = v \<or> (((0x41 \<le> u \<and> u \<le> 0x7A) \<or> u = 0x212A) \<and> ((0x41 \<le> v \<and> v \<le> 0x7A) \<or> v = 0x212A))"
  by (auto simp: sameIgnoringCase_def)

lemma sameIgnoringCase_whiteSpace:
  "sameIgnoringCase u v \<Longrightarrow> isWhiteSpace u = isWhiteSpace v"
  using letter_not_whiteSpace [of u] letter_not_whiteSpace [of v] sameIgnoringCase_letters [of u v]
  by blast

lemma sameIgnoringCase_plain:
  "sameIgnoringCase u v \<Longrightarrow> v < 0x80 \<Longrightarrow> u < 0x80 \<or> u = 0x212A"
  by (auto simp: sameIgnoringCase_def)

lemma map_basicLowerUnit_eq_iff:
  "map basicLowerUnit xs = map basicLowerUnit ys \<longleftrightarrow> list_all2 sameIgnoringCase xs ys"
proof -
  have "map basicLowerUnit xs = map basicLowerUnit ys \<longleftrightarrow>
        list_all2 (=) (map basicLowerUnit xs) (map basicLowerUnit ys)"
    by (simp add: list_all2_eq)
  also have "\<dots> \<longleftrightarrow> list_all2 (\<lambda>u v. basicLowerUnit u = basicLowerUnit v) xs ys"
    by (simp add: list_all2_map1 list_all2_map2)
  finally show ?thesis by (simp add: basicLowerUnit_eq_iff)
qed

lemma basicLowerUnit_ascii: "u < 0x80 \<Longrightarrow> basicLowerUnit u < 0x80"
  by (auto simp: basicLowerUnit_def)

lemma list_all2_hd: "list_all2 P xs ys \<Longrightarrow> ys \<noteq> [] \<Longrightarrow> P (hd xs) (hd ys)"
  by (cases xs; cases ys) simp_all

lemma list_all2_last: "list_all2 P xs ys \<Longrightarrow> ys \<noteq> [] \<Longrightarrow> P (last xs) (last ys)"
proof -
  assume a: "list_all2 P xs ys" and n: "ys \<noteq> []"
  then have "list_all2 P (rev xs) (rev ys)" by simp
  moreover from n have "rev ys \<noteq> []" by simp
  ultimately have "P (hd (rev xs)) (hd (rev ys))" by (rule list_all2_hd)
  moreover from a n have "xs \<noteq> []" by auto
  ultimately show ?thesis using n by (simp add: hd_rev)
qed

lemma ecma_plain:
  "ecmaToLowerCase lc \<Longrightarrow> \<forall>u \<in> set s. u < 0x80 \<or> u = 0x212A \<Longrightarrow> lc s = map basicLowerUnit s"
  by (simp add: ecmaToLowerCase_def)

lemma ecma_ascii_result:
  "ecmaToLowerCase lc \<Longrightarrow> \<forall>u \<in> set (lc s). u < 0x80 \<Longrightarrow> \<forall>u \<in> set s. u < 0x80 \<or> u = 0x212A"
  by (simp add: ecmaToLowerCase_def)

lemma ecma_basicToLowerCase: "ecmaToLowerCase basicToLowerCase"
  by (auto simp: ecmaToLowerCase_def basicToLowerCase_def basicLowerUnit_def split: if_splits)

text \<open>Against an ASCII answer, only a string that lower-cases unit by unit can be equal.\<close>

lemma judged_iff_units:
  assumes e: "ecmaToLowerCase lc" and c: "\<forall>u \<in> set c. u < 0x80"
  shows "lc x = lc c \<longleftrightarrow>
         (\<forall>u \<in> set x. u < 0x80 \<or> u = 0x212A) \<and> map basicLowerUnit x = map basicLowerUnit c"
proof -
  from c have pc: "\<forall>u \<in> set c. u < 0x80 \<or> u = 0x212A" by simp
  have lcc: "lc c = map basicLowerUnit c" by (rule ecma_plain [OF e pc])
  from c have ac: "\<forall>u \<in> set (map basicLowerUnit c). u < 0x80"
    by (simp add: basicLowerUnit_ascii)
  show ?thesis
  proof
    assume eq: "lc x = lc c"
    with lcc ac have "\<forall>u \<in> set (lc x). u < 0x80" by simp
    then have px: "\<forall>u \<in> set x. u < 0x80 \<or> u = 0x212A" by (rule ecma_ascii_result [OF e])
    from ecma_plain [OF e px] eq lcc have "map basicLowerUnit x = map basicLowerUnit c" by simp
    with px show "(\<forall>u \<in> set x. u < 0x80 \<or> u = 0x212A) \<and> map basicLowerUnit x = map basicLowerUnit c"
      by simp
  next
    assume a: "(\<forall>u \<in> set x. u < 0x80 \<or> u = 0x212A) \<and> map basicLowerUnit x = map basicLowerUnit c"
    then have "lc x = map basicLowerUnit x" using ecma_plain [OF e] by blast
    with a lcc show "lc x = lc c" by simp
  qed
qed

lemma judged_iff_padded_variant:
  assumes e: "ecmaToLowerCase lc" and c: "\<forall>u \<in> set c. u < 0x80"
    and n: "c \<noteq> []" and h: "\<not> isWhiteSpace (hd c)" and t: "\<not> isWhiteSpace (last c)"
  shows "lc (trim a) = lc (trim c) \<longleftrightarrow>
         (\<exists>l core r. a = l @ core @ r \<and> (\<forall>u \<in> set l. isWhiteSpace u) \<and>
            (\<forall>u \<in> set r. isWhiteSpace u) \<and> list_all2 sameIgnoringCase core c)"
proof -
  have tc: "trim c = c" using n h t by (rule trim_unpadded)
  show ?thesis
  proof
    assume "lc (trim a) = lc (trim c)"
    then have "lc (trim a) = lc c" by (simp add: tc)
    then have "map basicLowerUnit (trim a) = map basicLowerUnit c"
      by (simp add: judged_iff_units [OF e c])
    then have s: "list_all2 sameIgnoringCase (trim a) c"
      by (simp add: map_basicLowerUnit_eq_iff)
    from trim_decomposition [of a] obtain l r where
      "a = l @ trim a @ r" "\<forall>u \<in> set l. isWhiteSpace u" "\<forall>u \<in> set r. isWhiteSpace u"
      by blast
    with s show "\<exists>l core r. a = l @ core @ r \<and> (\<forall>u \<in> set l. isWhiteSpace u) \<and>
            (\<forall>u \<in> set r. isWhiteSpace u) \<and> list_all2 sameIgnoringCase core c"
      by blast
  next
    assume "\<exists>l core r. a = l @ core @ r \<and> (\<forall>u \<in> set l. isWhiteSpace u) \<and>
            (\<forall>u \<in> set r. isWhiteSpace u) \<and> list_all2 sameIgnoringCase core c"
    then obtain l core r where a: "a = l @ core @ r"
      and l: "\<forall>u \<in> set l. isWhiteSpace u" and r: "\<forall>u \<in> set r. isWhiteSpace u"
      and s: "list_all2 sameIgnoringCase core c"
      by blast
    from s n have cn: "core \<noteq> []" by auto
    from list_all2_hd [OF s n] h have ch: "\<not> isWhiteSpace (hd core)"
      by (simp add: sameIgnoringCase_whiteSpace)
    from list_all2_last [OF s n] t have cl: "\<not> isWhiteSpace (last core)"
      by (simp add: sameIgnoringCase_whiteSpace)
    have "trim a = trim core" unfolding a using l r by (rule trim_padded)
    also have "\<dots> = core" using cn ch cl by (rule trim_unpadded)
    finally have ta: "trim a = core" .
    have pc: "\<forall>u \<in> set core. u < 0x80 \<or> u = 0x212A"
    proof
      fix u assume "u \<in> set core"
      then obtain i where i: "i < length core" "core ! i = u" by (auto simp: in_set_conv_nth)
      with s have "sameIgnoringCase u (c ! i)" and "i < length c"
        by (auto simp: list_all2_conv_all_nth)
      moreover from this c have "c ! i < 0x80" by simp
      ultimately show "u < 0x80 \<or> u = 0x212A" by (simp add: sameIgnoringCase_plain)
    qed
    from s have "map basicLowerUnit core = map basicLowerUnit c"
      by (simp add: map_basicLowerUnit_eq_iff)
    with pc have "lc core = lc c" by (simp add: judged_iff_units [OF e c])
    then show "lc (trim a) = lc (trim c)" by (simp add: ta tc)
  qed
qed

lemma quizData_answers:
  "\<forall>q \<in> set quizData. (\<forall>u \<in> set (correctAnswer q). u < 0x80) \<and> correctAnswer q \<noteq> [] \<and>
      \<not> isWhiteSpace (hd (correctAnswer q)) \<and> \<not> isWhiteSpace (last (correctAnswer q))"
  by code_simp

lemma quizDataAt_member: "quizDataAt i = Some q \<Longrightarrow> q \<in> set quizData"
  by (auto simp: quizDataAt_def split: if_splits)

lemma answer_fields:
  assumes "\<not> answeredCorrectly s" and "quizDataAt (currentQuestion s) = Some q"
  shows "attempts (sessionOf (handleAnswerSelection lc a s)) =
           attempts s @ [\<lparr>questionText = question q, selectedAnswer = a,
              isCorrect = (lc (trim a) = lc (trim (correctAnswer q))),
              attemptNumber = currentAttempt s + 1, questionIndex = currentQuestion s\<rparr>]"
    and "answeredCorrectly (sessionOf (handleAnswerSelection lc a s)) =
           (lc (trim a) = lc (trim (correctAnswer q)))"
    and "score (sessionOf (handleAnswerSelection lc a s)) =
           (if lc (trim a) = lc (trim (correctAnswer q)) then score s + 1 else score s)"
  using assms by (simp_all add: handleAnswerSelection_def Let_def)

lemma answer_isCorrect:
  assumes "\<not> answeredCorrectly s" and "quizDataAt (currentQuestion s) = Some q"
  shows "isCorrect (last (attempts (sessionOf (handleAnswerSelection lc a s)))) =
           (lc (trim a) = lc (trim (correctAnswer q)))"
  by (simp add: answer_fields(1) [OF assms])


lemma judged_eq:
  assumes "\<not> answeredCorrectly s" and "quizDataAt (currentQuestion s) = Some q"
  shows "judged lc a s = (lc (trim a) = lc (trim (correctAnswer q)))"
  by (simp add: judged_def answer_fields(1) [OF assms])

lemma quizDataAt_0: "quizDataAt 0 = Some (hd quizData)"
  by (simp add: quizDataAt_def quizData_def)

lemma quizDataAt_5: "quizDataAt 5 = Some (quizData ! 5)"
  by (simp add: quizDataAt_def quizData_def)

lemma answers_ascii:
  "\<forall>u \<in> set (trim (correctAnswer (hd quizData))). u < 0x80"
  "\<forall>u \<in> set (trim (correctAnswer (quizData ! 5))). u < 0x80"
  by code_simp+

lemma mercury_examples:
  "(\<forall>u \<in> set (trim (js '' Mercury '')). u < 0x80 \<or> u = 0x212A) \<and>
     map basicLowerUnit (trim (js '' Mercury '')) =
     map basicLowerUnit (trim (correctAnswer (hd quizData)))"
  "(\<forall>u \<in> set (trim (js ''MERCURY'')). u < 0x80 \<or> u = 0x212A) \<and>
     map basicLowerUnit (trim (js ''MERCURY'')) =
     map basicLowerUnit (trim (correctAnswer (hd quizData)))"
  "\<not> ((\<forall>u \<in> set (trim (js ''Merc'')). u < 0x80 \<or> u = 0x212A) \<and>
     map basicLowerUnit (trim (js ''Merc'')) =
     map basicLowerUnit (trim (correctAnswer (hd quizData))))"
  "\<not> ((\<forall>u \<in> set (trim (js ''Mercury Venus'')). u < 0x80 \<or> u = 0x212A) \<and>
     map basicLowerUnit (trim (js ''Mercury Venus'')) =
     map basicLowerUnit (trim (correctAnswer (hd quizData))))"
  "\<not> ((\<forall>u \<in> set (trim (js ''Jupiter'')). u < 0x80 \<or> u = 0x212A) \<and>
     map basicLowerUnit (trim (js ''Jupiter'')) =
     map basicLowerUnit (trim (correctAnswer (hd quizData))))"
  "\<not> ((\<forall>u \<in> set (trim (js ''Mer cury'')). u < 0x80 \<or> u = 0x212A) \<and>
     map basicLowerUnit (trim (js ''Mer cury'')) =
     map basicLowerUnit (trim (correctAnswer (hd quizData))))"
  by code_simp+

lemma forty_examples:
  "(\<forall>u \<in> set (trim ([0x9, 0xA, 0xB, 0xC, 0xD, 0x20, 0xA0, 0x1680, 0x2000, 0x2001, 0x2002,
         0x2003, 0x2004, 0x2005, 0x2006, 0x2007, 0x2008, 0x2009, 0x200A, 0x2028, 0x2029,
         0x202F, 0x205F, 0x3000, 0xFEFF] @ js ''40'' @ [0xFEFF, 0x3000, 0x205F, 0x202F,
         0x2029, 0x2028, 0x200A, 0x2009, 0x2008, 0x2007, 0x2006, 0x2005, 0x2004, 0x2003,
         0x2002, 0x2001, 0x2000, 0x1680, 0xA0, 0x20, 0xD, 0xC, 0xB, 0xA, 0x9])).
       u < 0x80 \<or> u = 0x212A) \<and>
     map basicLowerUnit (trim ([0x9, 0xA, 0xB, 0xC, 0xD, 0x20, 0xA0, 0x1680, 0x2000, 0x2001, 0x2002,
         0x2003, 0x2004, 0x2005, 0x2006, 0x2007, 0x2008, 0x2009, 0x200A, 0x2028, 0x2029,
         0x202F, 0x205F, 0x3000, 0xFEFF] @ js ''40'' @ [0xFEFF, 0x3000, 0x205F, 0x202F,
         0x2029, 0x2028, 0x200A, 0x2009, 0x2008, 0x2007, 0x2006, 0x2005, 0x2004, 0x2003,
         0x2002, 0x2001, 0x2000, 0x1680, 0xA0, 0x20, 0xD, 0xC, 0xB, 0xA, 0x9])) =
     map basicLowerUnit (trim (correctAnswer (quizData ! 5)))"
  "\<not> ((\<forall>u \<in> set (trim (js ''40'' @ [0x180E])). u < 0x80 \<or> u = 0x212A) \<and>
     map basicLowerUnit (trim (js ''40'' @ [0x180E])) =
     map basicLowerUnit (trim (correctAnswer (quizData ! 5))))"
  "\<not> ((\<forall>u \<in> set (trim ([0x85] @ js ''40'')). u < 0x80 \<or> u = 0x212A) \<and>
     map basicLowerUnit (trim ([0x85] @ js ''40'')) =
     map basicLowerUnit (trim (correctAnswer (quizData ! 5))))"
  "(\<forall>u \<in> set (trim (js ''40'' @ [0x2003])). u < 0x80 \<or> u = 0x212A) \<and>
     map basicLowerUnit (trim (js ''40'' @ [0x2003])) =
     map basicLowerUnit (trim (correctAnswer (quizData ! 5)))"
  "\<not> ((\<forall>u \<in> set (trim (js ''40'' @ [0x200B])). u < 0x80 \<or> u = 0x212A) \<and>
     map basicLowerUnit (trim (js ''40'' @ [0x200B])) =
     map basicLowerUnit (trim (correctAnswer (quizData ! 5))))"
  "\<not> ((\<forall>u \<in> set (trim (js ''4 0'')). u < 0x80 \<or> u = 0x212A) \<and>
     map basicLowerUnit (trim (js ''4 0'')) =
     map basicLowerUnit (trim (correctAnswer (quizData ! 5))))"
  "\<not> ((\<forall>u \<in> set (trim (js ''400'')). u < 0x80 \<or> u = 0x212A) \<and>
     map basicLowerUnit (trim (js ''400'')) =
     map basicLowerUnit (trim (correctAnswer (quizData ! 5))))"
  by code_simp+

section \<open>Timer expiry\<close>


lemma timerEffect_currentQuestion:
  "currentQuestion (sessionOf (timerEffect s)) = currentQuestion s \<or>
   currentQuestion (sessionOf (timerEffect s)) = currentQuestion s + 1"
  by (simp add: timerEffect_def handleNextQuestion_def Let_def split: option.splits)

lemma timerEffect_finishes:
  "\<not> quizFinished s \<Longrightarrow> quizFinished (sessionOf (timerEffect s)) \<Longrightarrow>
   length quizData \<le> currentQuestion s + 1"
  by (auto simp: timerEffect_def handleNextQuestion_def Let_def split: if_splits option.splits)

lemma afterTimer_currentQuestion:
  "currentQuestion (afterTimer prev cur) = currentQuestion cur \<or>
   currentQuestion (afterTimer prev cur) = currentQuestion cur + 1"
  using timerEffect_currentQuestion [of cur] by (simp add: afterTimer_def)

lemma afterTimer_finishes:
  "\<not> quizFinished cur \<Longrightarrow> quizFinished (afterTimer prev cur) \<Longrightarrow>
   length quizData \<le> currentQuestion cur + 1"
  using timerEffect_finishes [of cur] by (simp add: afterTimer_def split: if_splits)

section \<open>Restart\<close>

lemma restartQuiz_initial: "restartQuiz s = initialSession"
  by (cases s) (simp add: restartQuiz_def initialSession_def)

lemma settle_initial: "settle e s initialSession w = (initialSession, w)"
proof (rule prod_eqI)
  have a: "afterTimer s initialSession = initialSession"
    by (simp add: afterTimer_def timerEffect_idle initialSession_def)
  then show "fst (settle e s initialSession w) = fst (initialSession, w)"
    by (simp add: fst_settle)
  have "\<not> quizFinished (afterTimer s initialSession)"
    by (simp add: a) (simp add: initialSession_def)
  then show "snd (settle e s initialSession w) = snd (initialSession, w)"
    by (simp add: snd_settle_running)
qed

section \<open>The log and the score, step by step\<close>

lemma answer_attempts_prefix: "prefix (attempts s) (attempts (sessionOf (handleAnswerSelection lc a s)))"
  by (simp add: handleAnswerSelection_def Let_def split: option.splits)

lemma answer_score:
  "score (sessionOf (handleAnswerSelection lc a s)) = score s \<or>
   score (sessionOf (handleAnswerSelection lc a s)) = score s + 1"
  by (simp add: handleAnswerSelection_def Let_def split: option.splits)

lemma answer_currentQuestion:
  "currentQuestion (sessionOf (handleAnswerSelection lc a s)) = currentQuestion s"
  "quizFinished (sessionOf (handleAnswerSelection lc a s)) = quizFinished s"
  by (simp_all add: handleAnswerSelection_def Let_def split: option.splits)

lemma timerEffect_attempts_prefix: "prefix (attempts s) (attempts (sessionOf (timerEffect s)))"
  by (simp add: timerEffect_def Let_def next_fields split: option.splits)

lemma timerEffect_score: "score (sessionOf (timerEffect s)) = score s"
  by (simp add: timerEffect_def Let_def next_fields split: option.splits)

lemma afterTimer_attempts_prefix: "prefix (attempts cur) (attempts (afterTimer prev cur))"
  by (simp add: afterTimer_def timerEffect_attempts_prefix)

lemma afterTimer_score: "score (afterTimer prev cur) = score cur"
  by (simp add: afterTimer_def timerEffect_score)

lemma handler_attempts_prefix:
  "ev \<noteq> ClickRetry \<Longrightarrow> prefix (attempts s) (attempts (sessionOf (handler e ev s)))"
proof (cases ev)
  case (ClickOption i)
  then show ?thesis
    by (simp add: handler_def answer_attempts_prefix split: option.splits)
next
  case ClickSubmit
  have "prefix (attempts s) (attempts (sessionOf (handleAnswerSelection (lowerCase e) (textAnswer s) s)))"
    by (rule answer_attempts_prefix)
  with ClickSubmit show ?thesis
    by (auto simp: handler_def split: outcome.splits)
qed (simp_all add: handler_def next_fields)

lemma handler_score:
  "ev \<noteq> ClickRetry \<Longrightarrow>
   score (sessionOf (handler e ev s)) = score s \<or> score (sessionOf (handler e ev s)) = score s + 1"
proof (cases ev)
  case (ClickOption i)
  then show ?thesis
    using answer_score by (simp add: handler_def split: option.splits)
next
  case ClickSubmit
  have "score (sessionOf (handleAnswerSelection (lowerCase e) (textAnswer s) s)) = score s \<or>
        score (sessionOf (handleAnswerSelection (lowerCase e) (textAnswer s) s)) = score s + 1"
    by (rule answer_score)
  with ClickSubmit show ?thesis
    by (auto simp: handler_def split: outcome.splits)
qed (simp_all add: handler_def next_fields)

lemma step_attempts_prefix:
  assumes "ev \<noteq> ClickRetry"
  shows "prefix (attempts (fst sw)) (attempts (fst (step e sw ev)))"
proof (cases "enabled (fst sw) ev")
  case False
  then show ?thesis by (simp add: step_def)
next
  case True
  have "prefix (attempts (fst sw)) (attempts (sessionOf (handler e ev (fst sw))))"
    using assms by (rule handler_attempts_prefix)
  also have "prefix \<dots> (attempts (afterTimer (fst sw) (sessionOf (handler e ev (fst sw)))))"
    by (rule afterTimer_attempts_prefix)
  finally show ?thesis using True by (simp add: step_def fst_settle)
qed

lemma step_score:
  assumes "ev \<noteq> ClickRetry"
  shows "score (fst (step e sw ev)) = score (fst sw) \<or>
         score (fst (step e sw ev)) = score (fst sw) + 1"
proof (cases "enabled (fst sw) ev")
  case False
  then show ?thesis by (simp add: step_def)
next
  case True
  then have "score (fst (step e sw ev)) = score (sessionOf (handler e ev (fst sw)))"
    by (simp add: step_def fst_settle afterTimer_score)
  with handler_score [OF assms, of e "fst sw"] show ?thesis by simp
qed

lemma step_score_Tick: "score (fst (step e sw Tick)) = score (fst sw)"
  by (simp add: step_def fst_settle afterTimer_score handler_def)

lemma step_score_ClickNext: "score (fst (step e sw ClickNext)) = score (fst sw)"
  by (simp add: step_def fst_settle afterTimer_score handler_def next_fields)

lemma run_append: "run (xs @ ys) sw = run ys (run xs sw)"
  by (induction xs sw rule: run.induct) simp_all

lemma run_attempts_prefix:
  "\<forall>i \<in> set ins. snd i \<noteq> ClickRetry \<Longrightarrow>
   prefix (attempts (fst sw)) (attempts (fst (run ins sw)))"
proof (induction ins arbitrary: sw)
  case Nil
  then show ?case by simp
next
  case (Cons i ins)
  obtain e ev where i: "i = (e, ev)" by (cases i)
  with Cons.prems have ev: "ev \<noteq> ClickRetry" and rest: "\<forall>i \<in> set ins. snd i \<noteq> ClickRetry"
    by simp_all
  have "prefix (attempts (fst sw)) (attempts (fst (step e sw ev)))"
    using ev by (rule step_attempts_prefix)
  also have "prefix \<dots> (attempts (fst (run ins (step e sw ev))))"
    using rest by (rule Cons.IH)
  finally show ?case using i by simp
qed

lemma run_score_mono:
  "\<forall>i \<in> set ins. snd i \<noteq> ClickRetry \<Longrightarrow> score (fst sw) \<le> score (fst (run ins sw))"
proof (induction ins arbitrary: sw)
  case Nil
  then show ?case by simp
next
  case (Cons i ins)
  obtain e ev where i: "i = (e, ev)" by (cases i)
  with Cons.prems have ev: "ev \<noteq> ClickRetry" and rest: "\<forall>i \<in> set ins. snd i \<noteq> ClickRetry"
    by simp_all
  from step_score [OF ev, of e sw] have "score (fst sw) \<le> score (fst (step e sw ev))"
    by auto
  also have "\<dots> \<le> score (fst (run ins (step e sw ev)))"
    using rest by (rule Cons.IH)
  finally show ?case using i by simp
qed

section \<open>The question index and the history store, step by step\<close>

lemma handler_keeps_question:
  assumes "ev \<noteq> ClickNext" and "ev \<noteq> ClickRetry"
  shows "currentQuestion (sessionOf (handler e ev s)) = currentQuestion s"
    and "quizFinished (sessionOf (handler e ev s)) = quizFinished s"
proof -
  have "currentQuestion (sessionOf (handler e ev s)) = currentQuestion s \<and>
        quizFinished (sessionOf (handler e ev s)) = quizFinished s"
  proof (cases ev)
    case (ClickOption i)
    then show ?thesis
      by (simp add: handler_def answer_currentQuestion split: option.splits)
  next
    case ClickSubmit
    have "currentQuestion (sessionOf (handleAnswerSelection (lowerCase e) (textAnswer s) s)) = currentQuestion s"
      and "quizFinished (sessionOf (handleAnswerSelection (lowerCase e) (textAnswer s) s)) = quizFinished s"
      by (rule answer_currentQuestion)+
    with ClickSubmit show ?thesis
      by (auto simp: handler_def split: outcome.splits)
  qed (use assms in \<open>simp_all add: handler_def\<close>)
  then show "currentQuestion (sessionOf (handler e ev s)) = currentQuestion s"
    and "quizFinished (sessionOf (handler e ev s)) = quizFinished s"
    by simp_all
qed

lemma step_currentQuestion:
  assumes "ev \<noteq> ClickRetry"
  shows "currentQuestion (fst (step e (s, w) ev)) = currentQuestion s \<or>
         currentQuestion (fst (step e (s, w) ev)) = currentQuestion s + 1"
proof (cases "enabled s ev")
  case False
  then show ?thesis by (simp add: step_def)
next
  case True
  show ?thesis
  proof (cases "ev = ClickNext")
    case True
    then have "fst (step e (s, w) ev) = s \<or> fst (step e (s, w) ev) = handleNextQuestion s"
      by (simp add: fst_step handler_def afterTimer_next)
    then show ?thesis
      by (auto simp: handleNextQuestion_def Let_def)
  next
    case False
    with assms have "currentQuestion (sessionOf (handler e ev s)) = currentQuestion s"
      by (simp add: handler_keeps_question)
    with afterTimer_currentQuestion [of s "sessionOf (handler e ev s)"] show ?thesis
      by (simp add: fst_step)
  qed
qed

lemma step_finishes_at_last:
  assumes "\<not> quizFinished s" and "quizFinished (fst (step e (s, w) ev))"
  shows "length quizData \<le> currentQuestion s + 1"
proof -
  from assms have en: "enabled s ev"
    by (auto simp: step_def split: if_splits)
  with assms(1) have nr: "ev \<noteq> ClickRetry" by (auto simp: enabled_def)
  show ?thesis
  proof (cases "ev = ClickNext")
    case True
    with assms show ?thesis
      by (simp add: step_ClickNext handleNextQuestion_def Let_def split: if_splits)
  next
    case False
    with nr assms(1) have k: "currentQuestion (sessionOf (handler e ev s)) = currentQuestion s"
      "\<not> quizFinished (sessionOf (handler e ev s))"
      by (simp_all add: handler_keeps_question)
    from assms(2) en have "quizFinished (afterTimer s (sessionOf (handler e ev s)))"
      by (simp add: fst_step)
    from afterTimer_finishes [OF k(2) this] k(1) show ?thesis by simp
  qed
qed

lemma saveQuizHistory_failed:
  "r \<noteq> TransactionComplete \<Longrightarrow>
   quizHistory (saveQuizHistory r h w) = quizHistory w \<and>
   alerts (saveQuizHistory r h w) = alerts w"
  by (cases r) (simp_all add: saveQuizHistory_def)

lemma saveQuizHistory_reported:
  "r = OpenRejected \<or> r = TransactionThrew \<or> r = TransactionError \<Longrightarrow>
   saveQuizHistory r h w =
     w\<lparr>console := console w @ [if r = TransactionError then ''Error saving quiz history: ''
                                else ''Error in saveQuizHistory:'']\<rparr>"
  by (auto simp: saveQuizHistory_def)

lemma saveQuizHistory_silent:
  "r = OpenNeverSettles \<or> r = TransactionAborted \<Longrightarrow> saveQuizHistory r h w = w"
  by (auto simp: saveQuizHistory_def)

lemma saveQuizHistory_complete:
  "saveQuizHistory TransactionComplete h w =
     w\<lparr>quizHistory := quizHistory w @ [h],
       alerts := alerts w @ [''Quiz history saved successfully in IndexDB!'']\<rparr>"
  by (simp add: saveQuizHistory_def)

lemma step_world_cases:
  "snd (step e (s, w) ev) =
     (if \<not> quizFinished s \<and> quizFinished (fst (step e (s, w) ev))
      then saveQuizHistory (idb e)
             \<lparr>timestamp = now e, finalScore = score (fst (step e (s, w) ev)),
               totalQuestions = 10, loggedAttempts = attempts (fst (step e (s, w) ev))\<rparr> w
      else w)"
proof (cases "quizFinished s")
  case True
  then show ?thesis by (simp add: step_finished)
next
  case False
  show ?thesis
  proof (cases "quizFinished (fst (step e (s, w) ev))")
    case True
    with False step_finishing [of s e w ev] show ?thesis
      by (simp add: saveEffect_def length_quizData)
  next
    case False
    then show ?thesis by (simp add: step_running)
  qed
qed

section \<open>Properties of the quiz\<close>

text \<open>
  C1. In every state reached from the initial one by any sequence of events, the score is
  the number of distinct questions that have a correct attempt in the log, and no
  question has more than one correct attempt.
\<close>

theorem score_counts_questions_answered_correctly:
  "score (fst (run ins (initialSession, w))) =
     card {q. \<exists>a \<in> set (attempts (fst (run ins (initialSession, w)))).
                isCorrect a \<and> questionIndex a = q}
   \<and> (\<forall>q. length (filter (\<lambda>a. isCorrect a \<and> questionIndex a = q)
                      (attempts (fst (run ins (initialSession, w))))) \<le> 1)"
proof (intro conjI allI)
  have wf: "wellFormed (fst (run ins (initialSession, w)))"
    by (rule wellFormed_reachable)
  from wf show "score (fst (run ins (initialSession, w))) =
     card {q. \<exists>a \<in> set (attempts (fst (run ins (initialSession, w)))).
                isCorrect a \<and> questionIndex a = q}"
    by (rule wellFormed_score_card)
  fix q
  from wf show "length (filter (\<lambda>a. isCorrect a \<and> questionIndex a = q)
                      (attempts (fst (run ins (initialSession, w))))) \<le> 1"
    by (rule wellFormed_one_correct)
qed


theorem score_counts_questions_answered_correctly_witness:
  "score (fst (run [(storeWorks, ClickOption 0),
                    (storeWorks, ClickOption 1),
                    (storeWorks, ClickOption 1),
                    (storeWorks, ClickNext)]
               (initialSession, emptyWorld))) = 1
   \<and> card {q. \<exists>a \<in> set (attempts (fst (run
                    [(storeWorks, ClickOption 0),
                     (storeWorks, ClickOption 1),
                     (storeWorks, ClickOption 1),
                     (storeWorks, ClickNext)]
                    (initialSession, emptyWorld)))). isCorrect a \<and> questionIndex a = q} = 1"
proof -
  have v: "score (fst (run [(storeWorks, ClickOption 0),
                    (storeWorks, ClickOption 1),
                    (storeWorks, ClickOption 1),
                    (storeWorks, ClickNext)]
               (initialSession, emptyWorld))) = 1"
    by code_simp
  with score_counts_questions_answered_correctly
         [of "[(storeWorks, ClickOption 0),
               (storeWorks, ClickOption 1),
               (storeWorks, ClickOption 1),
               (storeWorks, ClickNext)]" emptyWorld]
  show ?thesis by (simp only:)
qed

text \<open>
  C2. An answer is judged correct exactly when it equals the question's correct answer
  after both are trimmed and lower-cased, whatever the runtime's
  \<^verbatim>\<open>toLowerCase\<close> is: that decides the flag of the logged attempt, whether the
  question counts as answered, and whether the score grows; white space around an answer
  changes nothing. With a \<^verbatim>\<open>toLowerCase\<close> as ECMAScript has it, an answer is
  correct exactly when it is the correct answer, letter case apart, with nothing but
  white space before and after it: no part of the answer, no longer string and no other
  string of the same length is accepted. On the first question
  \<^verbatim>\<open>" Mercury "\<close> and \<^verbatim>\<open>"MERCURY"\<close> are correct, and \<^verbatim>\<open>"Merc"\<close>,
  \<^verbatim>\<open>"Mercury Venus"\<close>, \<^verbatim>\<open>"Jupiter"\<close> and \<^verbatim>\<open>"Mer cury"\<close> are not. On the
  sixth, \<^verbatim>\<open>"40"\<close> between all the white space code units is correct, as it is
  before an em space (U+2003); after U+0085, before U+180E or before a zero-width space
  (U+200B), none of them white space, it is not, nor are \<^verbatim>\<open>"4 0"\<close> and
  \<^verbatim>\<open>"400"\<close>.
\<close>

theorem answer_correct_iff_normalised_equal:
  assumes "\<not> answeredCorrectly s" and "quizDataAt (currentQuestion s) = Some q"
  shows
    "judged lc a s = (lc (trim a) = lc (trim (correctAnswer q)))
     \<and> answeredCorrectly (sessionOf (handleAnswerSelection lc a s)) =
         (lc (trim a) = lc (trim (correctAnswer q)))
     \<and> score (sessionOf (handleAnswerSelection lc a s)) =
         (if lc (trim a) = lc (trim (correctAnswer q)) then score s + 1 else score s)
     \<and> ((\<forall>u \<in> set l. isWhiteSpace u) \<and> (\<forall>u \<in> set r. isWhiteSpace u) \<longrightarrow>
          judged lc (l @ a @ r) s = judged lc a s)
     \<and> (ecmaToLowerCase lc \<longrightarrow>
          (judged lc a s \<longleftrightarrow>
             (\<exists>l core r. a = l @ core @ r \<and> (\<forall>u \<in> set l. isWhiteSpace u) \<and>
                (\<forall>u \<in> set r. isWhiteSpace u) \<and>
                list_all2 sameIgnoringCase core (correctAnswer q)))
          \<and> (currentQuestion s = 0 \<longrightarrow>
                judged lc (js '' Mercury '') s \<and> judged lc (js ''MERCURY'') s \<and>
                \<not> judged lc (js ''Merc'') s \<and> \<not> judged lc (js ''Mercury Venus'') s \<and>
                \<not> judged lc (js ''Jupiter'') s \<and> \<not> judged lc (js ''Mer cury'') s)
          \<and> (currentQuestion s = 5 \<longrightarrow>
                judged lc ([0x9, 0xA, 0xB, 0xC, 0xD, 0x20, 0xA0, 0x1680, 0x2000, 0x2001, 0x2002,
                  0x2003, 0x2004, 0x2005, 0x2006, 0x2007, 0x2008, 0x2009, 0x200A, 0x2028, 0x2029,
                  0x202F, 0x205F, 0x3000, 0xFEFF] @ js ''40'' @ [0xFEFF, 0x3000, 0x205F, 0x202F,
                  0x2029, 0x2028, 0x200A, 0x2009, 0x2008, 0x2007, 0x2006, 0x2005, 0x2004, 0x2003,
                  0x2002, 0x2001, 0x2000, 0x1680, 0xA0, 0x20, 0xD, 0xC, 0xB, 0xA, 0x9]) s \<and>
                \<not> judged lc (js ''40'' @ [0x180E]) s \<and> \<not> judged lc ([0x85] @ js ''40'') s \<and>
                judged lc (js ''40'' @ [0x2003]) s \<and> \<not> judged lc (js ''40'' @ [0x200B]) s \<and>
                \<not> judged lc (js ''4 0'') s \<and> \<not> judged lc (js ''400'') s))"
proof (intro conjI impI)
  note j = judged_eq [OF assms]
  show "judged lc a s = (lc (trim a) = lc (trim (correctAnswer q)))" by (rule j)
  show "answeredCorrectly (sessionOf (handleAnswerSelection lc a s)) =
         (lc (trim a) = lc (trim (correctAnswer q)))"
    by (rule answer_fields(2) [OF assms])
  show "score (sessionOf (handleAnswerSelection lc a s)) =
         (if lc (trim a) = lc (trim (correctAnswer q)) then score s + 1 else score s)"
    by (rule answer_fields(3) [OF assms])
next
  assume "(\<forall>u \<in> set l. isWhiteSpace u) \<and> (\<forall>u \<in> set r. isWhiteSpace u)"
  then have "trim (l @ a @ r) = trim a" by (simp add: trim_padded)
  then show "judged lc (l @ a @ r) s = judged lc a s"
    by (simp add: judged_eq [OF assms])
next
  assume e: "ecmaToLowerCase lc"
  from assms(2) have "q \<in> set quizData" by (rule quizDataAt_member)
  with quizData_answers have c: "\<forall>u \<in> set (correctAnswer q). u < 0x80"
    and n: "correctAnswer q \<noteq> []" and h: "\<not> isWhiteSpace (hd (correctAnswer q))"
    and t: "\<not> isWhiteSpace (last (correctAnswer q))"
    by blast+
  show "judged lc a s \<longleftrightarrow>
             (\<exists>l core r. a = l @ core @ r \<and> (\<forall>u \<in> set l. isWhiteSpace u) \<and>
                (\<forall>u \<in> set r. isWhiteSpace u) \<and>
                list_all2 sameIgnoringCase core (correctAnswer q))"
    unfolding judged_eq [OF assms] by (rule judged_iff_padded_variant [OF e c n h t])
next
  assume e: "ecmaToLowerCase lc" and z: "currentQuestion s = 0"
  with assms(2) have q: "q = hd quizData" by (simp add: quizDataAt_0)
  note u = judged_iff_units [OF e answers_ascii(1)]
  show "judged lc (js '' Mercury '') s" "judged lc (js ''MERCURY'') s"
    "\<not> judged lc (js ''Merc'') s" "\<not> judged lc (js ''Mercury Venus'') s"
    "\<not> judged lc (js ''Jupiter'') s" "\<not> judged lc (js ''Mer cury'') s"
    unfolding judged_eq [OF assms] q u by (rule mercury_examples)+
next
  assume e: "ecmaToLowerCase lc" and z: "currentQuestion s = 5"
  with assms(2) have q: "q = quizData ! 5" by (simp add: quizDataAt_5)
  note u = judged_iff_units [OF e answers_ascii(2)]
  show "judged lc ([0x9, 0xA, 0xB, 0xC, 0xD, 0x20, 0xA0, 0x1680, 0x2000, 0x2001, 0x2002,
                  0x2003, 0x2004, 0x2005, 0x2006, 0x2007, 0x2008, 0x2009, 0x200A, 0x2028, 0x2029,
                  0x202F, 0x205F, 0x3000, 0xFEFF] @ js ''40'' @ [0xFEFF, 0x3000, 0x205F, 0x202F,
                  0x2029, 0x2028, 0x200A, 0x2009, 0x2008, 0x2007, 0x2006, 0x2005, 0x2004, 0x2003,
                  0x2002, 0x2001, 0x2000, 0x1680, 0xA0, 0x20, 0xD, 0xC, 0xB, 0xA, 0x9]) s"
    "\<not> judged lc (js ''40'' @ [0x180E]) s" "\<not> judged lc ([0x85] @ js ''40'') s"
    "judged lc (js ''40'' @ [0x2003]) s" "\<not> judged lc (js ''40'' @ [0x200B]) s"
    "\<not> judged lc (js ''4 0'') s" "\<not> judged lc (js ''400'') s"
    unfolding judged_eq [OF assms] q u by (rule forty_examples)+
qed

theorem answer_correct_iff_normalised_equal_witness:
  "ecmaToLowerCase basicToLowerCase
   \<and> \<not> answeredCorrectly initialSession
   \<and> quizDataAt (currentQuestion initialSession) = Some (hd quizData)
   \<and> judged basicToLowerCase (js '' Mercury '') initialSession
   \<and> judged basicToLowerCase (js ''MERCURY'') initialSession
   \<and> \<not> judged basicToLowerCase (js ''Merc'') initialSession
   \<and> \<not> judged basicToLowerCase (js ''Jupiter'') initialSession
   \<and> score (sessionOf (handleAnswerSelection basicToLowerCase (js ''mercury'') initialSession)) = 1"
proof -
  have a: "\<not> answeredCorrectly initialSession" by (simp add: initialSession_def)
  have b: "quizDataAt (currentQuestion initialSession) = Some (hd quizData)"
    by (simp add: initialSession_def quizDataAt_0)
  have c: "currentQuestion initialSession = 0" by (simp add: initialSession_def)
  have d: "basicToLowerCase (trim (js ''mercury'')) =
           basicToLowerCase (trim (correctAnswer (hd quizData)))"
    by code_simp
  have e: "score initialSession = 0" by (simp add: initialSession_def)
  from answer_correct_iff_normalised_equal
         [OF a b, where lc = basicToLowerCase and a = "js ''mercury''" and l = "[]" and r = "[]"]
       ecma_basicToLowerCase a b c d e
  show ?thesis by simp
qed



text \<open>
  C4, as the code has it. The step that finishes a running quiz calls
  \<^verbatim>\<open>saveQuizHistory\<close> once, with the clock's timestamp, the final score,
  \<open>totalQuestions = 10\<close> and the whole attempt log; it starts from the last question.
  When the transaction completes, exactly that entry is appended to the store; when the
  database fails, the store is unchanged. No step that leaves the quiz running, and no
  step from a finished quiz, touches the store.
\<close>

theorem history_written_once_on_finish:
  "(\<not> quizFinished s \<and> quizFinished (fst (step e (s, w) ev)) \<longrightarrow>
      snd (step e (s, w) ev) =
        saveQuizHistory (idb e)
          \<lparr>timestamp = now e, finalScore = score (fst (step e (s, w) ev)),
            totalQuestions = 10, loggedAttempts = attempts (fst (step e (s, w) ev))\<rparr> w
      \<and> (idb e = TransactionComplete \<longrightarrow>
           quizHistory (snd (step e (s, w) ev)) =
             quizHistory w @
               [\<lparr>timestamp = now e, finalScore = score (fst (step e (s, w) ev)),
                  totalQuestions = 10, loggedAttempts = attempts (fst (step e (s, w) ev))\<rparr>])
      \<and> (idb e \<noteq> TransactionComplete \<longrightarrow>
           quizHistory (snd (step e (s, w) ev)) = quizHistory w)
      \<and> length quizData \<le> currentQuestion s + 1)
   \<and> (\<not> quizFinished (fst (step e (s, w) ev)) \<longrightarrow> snd (step e (s, w) ev) = w)
   \<and> (quizFinished s \<longrightarrow> snd (step e (s, w) ev) = w)"
proof (intro conjI impI)
  assume a: "\<not> quizFinished s \<and> quizFinished (fst (step e (s, w) ev))"
  then show eq: "snd (step e (s, w) ev) =
        saveQuizHistory (idb e)
          \<lparr>timestamp = now e, finalScore = score (fst (step e (s, w) ev)),
            totalQuestions = 10, loggedAttempts = attempts (fst (step e (s, w) ev))\<rparr> w"
    by (simp add: step_world_cases [of e s w ev])
  from a show "length quizData \<le> currentQuestion s + 1"
    using step_finishes_at_last by blast
  {
    assume "idb e = TransactionComplete"
    then show "quizHistory (snd (step e (s, w) ev)) =
             quizHistory w @
               [\<lparr>timestamp = now e, finalScore = score (fst (step e (s, w) ev)),
                  totalQuestions = 10, loggedAttempts = attempts (fst (step e (s, w) ev))\<rparr>]"
      by (simp add: eq saveQuizHistory_complete)
  next
    assume "idb e \<noteq> TransactionComplete"
    then show "quizHistory (snd (step e (s, w) ev)) = quizHistory w"
      by (simp add: eq saveQuizHistory_failed)
  }
next
  assume "\<not> quizFinished (fst (step e (s, w) ev))"
  then show "snd (step e (s, w) ev) = w" by (rule step_running)
next
  assume "quizFinished s"
  then show "snd (step e (s, w) ev) = w" by (rule step_finished)
qed

theorem history_written_once_on_finish_witness:
  "\<not> quizFinished (fst skippedToLast)
   \<and> quizFinished (fst (step storeWorks skippedToLast ClickNext))
   \<and> quizHistory (snd (step storeWorks skippedToLast ClickNext)) =
       [\<lparr>timestamp = ''2025-02-08T10:00:00.000Z'', finalScore = 0, totalQuestions = 10,
         loggedAttempts = []\<rparr>]
   \<and> snd (step storeFails (step storeWorks skippedToLast ClickNext) ClickRetry) =
       snd (step storeWorks skippedToLast ClickNext)"
proof -
  have a: "\<not> quizFinished (fst skippedToLast)" by code_simp
  have b: "quizFinished (fst (step storeWorks skippedToLast ClickNext))" by code_simp
  have v: "score (fst (step storeWorks skippedToLast ClickNext)) = 0"
    "attempts (fst (step storeWorks skippedToLast ClickNext)) = []"
    "quizHistory (snd skippedToLast) = []"
    "now storeWorks = ''2025-02-08T10:00:00.000Z''" "idb storeWorks = TransactionComplete"
    by code_simp+
  from history_written_once_on_finish
         [of "fst skippedToLast" storeWorks "snd skippedToLast" ClickNext] a b v
  have c: "quizHistory (snd (step storeWorks skippedToLast ClickNext)) =
       [\<lparr>timestamp = ''2025-02-08T10:00:00.000Z'', finalScore = 0, totalQuestions = 10,
         loggedAttempts = []\<rparr>]"
    by (simp add: saveQuizHistory_complete)
  from history_written_once_on_finish
         [of "fst (step storeWorks skippedToLast ClickNext)" storeFails
             "snd (step storeWorks skippedToLast ClickNext)" ClickRetry] b
  have d: "snd (step storeFails (step storeWorks skippedToLast ClickNext) ClickRetry) =
       snd (step storeWorks skippedToLast ClickNext)"
    by simp
  from a b c d show ?thesis by simp
qed

text \<open>
  C4 as stated fails when the database cannot be opened: a player answers all ten
  questions correctly, the quiz is finished, and the store holds no entry.
\<close>

theorem history_not_written_when_store_fails:
  "quizFinished (fst (run (map (Pair storeFails) allCorrect) (initialSession, emptyWorld)))
   \<and> score (fst (run (map (Pair storeFails) allCorrect) (initialSession, emptyWorld))) = 10
   \<and> quizHistory (snd (run (map (Pair storeFails) allCorrect) (initialSession, emptyWorld))) = []"
  by code_simp

text \<open>
  C5. Whatever the state before, \<^verbatim>\<open>restartQuiz\<close> gives the initial session:
  score 0, no attempts, question 0, 30 seconds, not finished, attempt counter 0. The
  render that follows changes nothing more and leaves the store, the console and the
  alerts as they were.
\<close>

theorem restart_resets_session:
  "restartQuiz s = initialSession
   \<and> score (restartQuiz s) = 0 \<and> attempts (restartQuiz s) = []
   \<and> currentQuestion (restartQuiz s) = 0 \<and> timer (restartQuiz s) = 30
   \<and> \<not> quizFinished (restartQuiz s) \<and> currentAttempt (restartQuiz s) = 0
   \<and> \<not> answeredCorrectly (restartQuiz s)
   \<and> settle e s (restartQuiz s) w = (initialSession, w)
   \<and> (quizFinished s \<longrightarrow> step e (s, w) ClickRetry = (initialSession, w))"
  by (simp add: restartQuiz_initial settle_initial step_def enabled_def handler_def)
     (simp add: initialSession_def)

theorem restart_resets_session_witness:
  "quizFinished (fst (step storeWorks skippedToLast ClickNext))
   \<and> step storeWorks (step storeWorks skippedToLast ClickNext) ClickRetry =
       (initialSession, snd (step storeWorks skippedToLast ClickNext))"
proof -
  have b: "quizFinished (fst (step storeWorks skippedToLast ClickNext))" by code_simp
  from restart_resets_session
         [of "fst (step storeWorks skippedToLast ClickNext)" storeWorks
             "snd (step storeWorks skippedToLast ClickNext)"] b
  show ?thesis by simp
qed

text \<open>
  C6. While the current question is answered correctly, \<^verbatim>\<open>handleAnswerSelection\<close>
  returns at once and changes no state; a click on an option, or on the disabled Submit
  button, leaves session and world as they were.
\<close>

theorem answer_ignored_once_correct:
  assumes "answeredCorrectly s"
  shows "handleAnswerSelection lc a s = Returned s
         \<and> step e (s, w) (ClickOption i) = (s, w)
         \<and> step e (s, w) ClickSubmit = (s, w)"
proof (intro conjI)
  from assms show h: "handleAnswerSelection lc a s = Returned s" for lc a
    by (simp add: handleAnswerSelection_def)
  have "sessionOf (handler e (ClickOption i) s) = s"
    by (simp add: handler_def h split: option.splits)
  then show "step e (s, w) (ClickOption i) = (s, w)"
    by (simp add: step_def settle_same)
  from assms show "step e (s, w) ClickSubmit = (s, w)"
    by (simp add: step_def enabled_def)
qed

theorem answer_ignored_once_correct_witness:
  "answeredCorrectly (fst (step storeWorks (initialSession, emptyWorld) (ClickOption 1)))
   \<and> step storeWorks (step storeWorks (initialSession, emptyWorld) (ClickOption 1)) (ClickOption 0) =
       step storeWorks (initialSession, emptyWorld) (ClickOption 1)"
proof -
  have a: "answeredCorrectly (fst (step storeWorks (initialSession, emptyWorld) (ClickOption 1)))"
    by code_simp
  from answer_ignored_once_correct
         [OF a, where e = storeWorks
            and w = "snd (step storeWorks (initialSession, emptyWorld) (ClickOption 1))" and i = 0] a
  show ?thesis by simp
qed

text \<open>
  C7, as the code has it. In every state reached from the initial one the question index
  is below the number of questions, so it never equals that number, finished or not. A
  click on Next from a question that is not the last raises the index by exactly 1 and
  the quiz keeps running; from the last question the index stays and the quiz is
  finished. No event but Retry lowers the index or raises it by more than 1.
\<close>

theorem question_index_below_count:
  "currentQuestion (fst (run ins (initialSession, w))) < length quizData
   \<and> (\<not> quizFinished s \<and> currentQuestion s + 1 < length quizData \<longrightarrow>
        currentQuestion (fst (step e (s, w') ClickNext)) = currentQuestion s + 1
        \<and> \<not> quizFinished (fst (step e (s, w') ClickNext)))
   \<and> (\<not> quizFinished s \<and> \<not> currentQuestion s + 1 < length quizData \<longrightarrow>
        currentQuestion (fst (step e (s, w') ClickNext)) = currentQuestion s
        \<and> quizFinished (fst (step e (s, w') ClickNext)))
   \<and> (ev \<noteq> ClickRetry \<longrightarrow>
        currentQuestion (fst (step e (s, w') ev)) = currentQuestion s \<or>
        currentQuestion (fst (step e (s, w') ev)) = currentQuestion s + 1)"
proof (intro conjI impI)
  have "wellFormed (fst (run ins (initialSession, w)))" by (rule wellFormed_reachable)
  then show "currentQuestion (fst (run ins (initialSession, w))) < length quizData"
    by (simp add: wellFormed_def)
next
  assume a: "\<not> quizFinished s \<and> currentQuestion s + 1 < length quizData"
  then have "movedOn s (fst (step e (s, w') ClickNext))"
    by (simp add: step_ClickNext next_movedOn)
  with a show "currentQuestion (fst (step e (s, w') ClickNext)) = currentQuestion s + 1"
    and "\<not> quizFinished (fst (step e (s, w') ClickNext))"
    by (simp_all add: movedOn_def)
next
  assume a: "\<not> quizFinished s \<and> \<not> currentQuestion s + 1 < length quizData"
  then have "movedOn s (fst (step e (s, w') ClickNext))"
    by (simp add: step_ClickNext next_movedOn)
  with a show "currentQuestion (fst (step e (s, w') ClickNext)) = currentQuestion s"
    and "quizFinished (fst (step e (s, w') ClickNext))"
    by (simp_all add: movedOn_def)
next
  assume "ev \<noteq> ClickRetry"
  then show "currentQuestion (fst (step e (s, w') ev)) = currentQuestion s \<or>
        currentQuestion (fst (step e (s, w') ev)) = currentQuestion s + 1"
    by (rule step_currentQuestion)
qed

theorem question_index_below_count_witness:
  "currentQuestion (fst (run (map (Pair storeWorks) (replicate 10 ClickNext))
                             (initialSession, emptyWorld))) < length quizData
   \<and> currentQuestion (fst (step storeWorks (initialSession, emptyWorld) ClickNext)) = 1
   \<and> \<not> quizFinished (fst (step storeWorks (initialSession, emptyWorld) ClickNext))"
proof -
  have v: "\<not> quizFinished initialSession" "currentQuestion initialSession = 0"
    by (simp_all add: initialSession_def)
  from question_index_below_count
         [of "map (Pair storeWorks) (replicate 10 ClickNext)" emptyWorld initialSession
             storeWorks emptyWorld ClickNext] v
  show ?thesis by (simp add: length_quizData)
qed

text \<open>
  C7 as stated fails at the last question: the advance from index 9 finishes the quiz and
  leaves the index at 9, it does not raise it to 10.
\<close>

theorem question_index_stays_at_last_when_finishing:
  "currentQuestion (fst skippedToLast) = 9
   \<and> \<not> quizFinished (fst skippedToLast)
   \<and> currentQuestion (fst (step storeWorks skippedToLast ClickNext)) = 9
   \<and> quizFinished (fst (step storeWorks skippedToLast ClickNext))
   \<and> length quizData = 10"
  by code_simp

text \<open>
  C8. Without Retry, the log after any earlier events is a prefix of the log after any
  later ones: records are only appended. The question indices of the log are in
  non-decreasing order.
\<close>

theorem attempt_log_append_only_and_ordered:
  assumes "\<forall>i \<in> set later. snd i \<noteq> ClickRetry"
  shows "prefix (attempts (fst (run earlier (initialSession, w))))
                (attempts (fst (run (earlier @ later) (initialSession, w))))
         \<and> sorted (map questionIndex (attempts (fst (run (earlier @ later) (initialSession, w)))))"
proof
  from assms show "prefix (attempts (fst (run earlier (initialSession, w))))
                (attempts (fst (run (earlier @ later) (initialSession, w))))"
    by (simp add: run_append run_attempts_prefix)
  have "wellFormed (fst (run (earlier @ later) (initialSession, w)))"
    by (rule wellFormed_reachable)
  then show "sorted (map questionIndex (attempts (fst (run (earlier @ later) (initialSession, w)))))"
    by (simp add: wellFormed_def)
qed

theorem attempt_log_append_only_and_ordered_witness:
  "prefix (attempts (fst (run [(storeWorks, ClickOption 0)] (initialSession, emptyWorld))))
          (attempts (fst (run ([(storeWorks, ClickOption 0)] @
              [(storeWorks, Tick), (storeWorks, ClickOption 1), (storeWorks, ClickNext),
               (storeWorks, ClickNext)]) (initialSession, emptyWorld))))
   \<and> sorted (map questionIndex (attempts (fst (run ([(storeWorks, ClickOption 0)] @
              [(storeWorks, Tick), (storeWorks, ClickOption 1), (storeWorks, ClickNext),
               (storeWorks, ClickNext)]) (initialSession, emptyWorld)))))"
proof -
  have h: "\<forall>i \<in> set [(storeWorks, Tick), (storeWorks, ClickOption 1), (storeWorks, ClickNext),
               (storeWorks, ClickNext)]. snd i \<noteq> ClickRetry"
    by simp
  show ?thesis
    by (rule attempt_log_append_only_and_ordered [OF h])
qed

text \<open>
  What holds of every save that fails: the session after the step is the one a
  successful save gives, the store and the alerts are unchanged, and no later event of
  the finished quiz writes again. A rejected open request, a throwing transaction and a
  transaction error write exactly one line to the console at the finishing step; an
  open request that never settles and a transaction aborted as it commits write none.
\<close>

lemma failed_save_leaves_session_and_store:
  assumes "idb e \<noteq> TransactionComplete"
  shows "fst (step e (s, w) ev) = fst (step (e\<lparr>idb := TransactionComplete\<rparr>) (s, w) ev)
     \<and> quizHistory (snd (step e (s, w) ev)) = quizHistory w
     \<and> alerts (snd (step e (s, w) ev)) = alerts w
     \<and> (\<not> quizFinished s \<and> quizFinished (fst (step e (s, w) ev)) \<and>
          (idb e = OpenRejected \<or> idb e = TransactionThrew \<or> idb e = TransactionError) \<longrightarrow>
          console (snd (step e (s, w) ev)) =
            console w @ [if idb e = TransactionError then ''Error saving quiz history: ''
                         else ''Error in saveQuizHistory:''])
     \<and> (idb e = OpenNeverSettles \<or> idb e = TransactionAborted \<longrightarrow>
          console (snd (step e (s, w) ev)) = console w)
     \<and> (\<not> (\<not> quizFinished s \<and> quizFinished (fst (step e (s, w) ev))) \<longrightarrow>
          console (snd (step e (s, w) ev)) = console w)
     \<and> (quizFinished (fst (step e (s, w) ev)) \<longrightarrow>
          snd (step e' (step e (s, w) ev) ev') = snd (step e (s, w) ev))"
proof (intro conjI impI)
  show "fst (step e (s, w) ev) = fst (step (e\<lparr>idb := TransactionComplete\<rparr>) (s, w) ev)"
    by (rule fst_step_env)
  from assms show "quizHistory (snd (step e (s, w) ev)) = quizHistory w"
    by (simp add: step_world_cases [of e s w ev] saveQuizHistory_failed)
  from assms show "alerts (snd (step e (s, w) ev)) = alerts w"
    by (simp add: step_world_cases [of e s w ev] saveQuizHistory_failed)
next
  assume "\<not> quizFinished s \<and> quizFinished (fst (step e (s, w) ev)) \<and>
          (idb e = OpenRejected \<or> idb e = TransactionThrew \<or> idb e = TransactionError)"
  then show "console (snd (step e (s, w) ev)) =
            console w @ [if idb e = TransactionError then ''Error saving quiz history: ''
                         else ''Error in saveQuizHistory:'']"
    by (simp add: step_world_cases [of e s w ev] saveQuizHistory_reported)
next
  assume "idb e = OpenNeverSettles \<or> idb e = TransactionAborted"
  then show "console (snd (step e (s, w) ev)) = console w"
    by (simp add: step_world_cases [of e s w ev] saveQuizHistory_silent)
next
  assume "\<not> (\<not> quizFinished s \<and> quizFinished (fst (step e (s, w) ev)))"
  then have "snd (step e (s, w) ev) = w"
    using step_running [of e s w ev] step_finished [of s e w ev] by blast
  then show "console (snd (step e (s, w) ev)) = console w"
    by simp
next
  assume f: "quizFinished (fst (step e (s, w) ev))"
  have "snd (step e' (fst (step e (s, w) ev), snd (step e (s, w) ev)) ev') = snd (step e (s, w) ev)"
    using f by (rule step_finished)
  then show "snd (step e' (step e (s, w) ev) ev') = snd (step e (s, w) ev)"
    by simp
qed

text \<open>
  C9 fails on the code when the transaction is aborted as it commits: the quiz is
  finished, nothing is stored, no alert is shown, and no error is logged, while the
  rejected open request is logged. The source handles \<^verbatim>\<open>onerror\<close> and the
  rejected promise, and sets no \<^verbatim>\<open>onabort\<close>.
\<close>

theorem aborted_save_is_not_logged:
  "\<not> quizFinished (fst skippedToLast)
   \<and> quizFinished (fst (step storeAborts skippedToLast ClickNext))
   \<and> quizHistory (snd (step storeAborts skippedToLast ClickNext)) = []
   \<and> console (snd (step storeAborts skippedToLast ClickNext)) = []
   \<and> alerts (snd (step storeAborts skippedToLast ClickNext)) = []
   \<and> console (snd (step storeFails skippedToLast ClickNext)) = [''Error in saveQuizHistory:'']"
  by code_simp

text \<open>
  C10. No event but Retry lowers the score: each leaves it as it is or adds exactly 1;
  an answer adds at most 1; the timer and Next leave it unchanged; over any events
  without Retry the score does not decrease.
\<close>

theorem score_never_decreases:
  "(ev \<noteq> ClickRetry \<longrightarrow>
      score (fst (step e (s, w) ev)) = score s \<or> score (fst (step e (s, w) ev)) = score s + 1)
   \<and> (score (sessionOf (handleAnswerSelection lc a s)) = score s \<or>
      score (sessionOf (handleAnswerSelection lc a s)) = score s + 1)
   \<and> score (handleNextQuestion s) = score s
   \<and> score (sessionOf (timerEffect s)) = score s
   \<and> score (fst (step e (s, w) Tick)) = score s
   \<and> score (fst (step e (s, w) ClickNext)) = score s
   \<and> ((\<forall>i \<in> set ins. snd i \<noteq> ClickRetry) \<longrightarrow> score s \<le> score (fst (run ins (s, w))))"
proof (intro conjI impI)
  assume "ev \<noteq> ClickRetry"
  from step_score [OF this, of e "(s, w)"]
  show "score (fst (step e (s, w) ev)) = score s \<or> score (fst (step e (s, w) ev)) = score s + 1"
    by simp
next
  show "score (sessionOf (handleAnswerSelection lc a s)) = score s \<or>
      score (sessionOf (handleAnswerSelection lc a s)) = score s + 1"
    by (rule answer_score)
  show "score (handleNextQuestion s) = score s" by (rule next_fields)
  show "score (sessionOf (timerEffect s)) = score s" by (rule timerEffect_score)
  show "score (fst (step e (s, w) Tick)) = score s" by (simp add: step_score_Tick)
  show "score (fst (step e (s, w) ClickNext)) = score s" by (simp add: step_score_ClickNext)
next
  assume "\<forall>i \<in> set ins. snd i \<noteq> ClickRetry"
  from run_score_mono [OF this, of "(s, w)"] show "score s \<le> score (fst (run ins (s, w)))"
    by simp
qed

theorem score_never_decreases_witness:
  "score (fst (step storeWorks (initialSession, emptyWorld) (ClickOption 1))) = score initialSession + 1
   \<and> score (fst (step storeWorks (initialSession, emptyWorld) Tick)) = score initialSession
   \<and> score initialSession \<le> score (fst (run (map (Pair storeWorks) allCorrect) (initialSession, emptyWorld)))"
proof -
  have h: "\<forall>i \<in> set (map (Pair storeWorks) allCorrect). snd i \<noteq> ClickRetry"
    by (simp add: allCorrect_def)
  have v: "score (fst (step storeWorks (initialSession, emptyWorld) (ClickOption 1))) \<noteq> score initialSession"
    by code_simp
  from score_never_decreases
         [where ev = "ClickOption 1" and e = storeWorks and s = initialSession and w = emptyWorld
            and ins = "map (Pair storeWorks) allCorrect"]
       h v
  show ?thesis by simp
qed


end
